theory Spec2Isabelle
  imports Complex_Main "HOL-Library.Multiset" "HOL-Library.AList" "HOL-Library.Log_Nat"
begin

section \<open>JavaScript numbers\<close>

text \<open>
  The metrics code computes on JavaScript numbers, that is on IEEE 754 binary64 values. A
  finite number is \<open>Num x\<close> for a real \<open>x\<close> that is a double (\<open>is_double x\<close>); the three
  non-finite values are constructors of their own. Every arithmetic operation computes the
  exact real result and rounds it to the nearest double, ties to the even significand
  (\<open>round_double\<close>), and overflows to an infinity when the rounded magnitude reaches
  \<open>2 ^ 1024\<close> (\<open>fl\<close>).

  \<open>round_half_even\<close> rounds a real to the nearest integer, ties to even. \<open>exponent x\<close> is
  the binary exponent of \<open>x\<close>, the floor of its logarithm to base 2, at least \<open>-1022\<close>
  (below \<open>2 ^ -1022\<close> the doubles are subnormal and keep the spacing \<open>2 ^ -1074\<close>); it is
  computed from the number of binary digits (\<open>bitlen\<close>) of the integer part of \<open>\<bar>x\<bar>\<close>, or
  of \<open>1 / \<bar>x\<bar>\<close> rounded up. The doubles of exponent \<open>e\<close> are the integer multiples of
  \<open>2 ^ (e - 52)\<close>.

  There is one zero: \<open>+0\<close> and \<open>-0\<close> are both \<open>Num 0\<close>. The two are equal for \<open>===\<close>, \<open><\<close> and
  \<open><=\<close> and differ only as the divisor of a nonzero number, where \<open>js_div\<close> takes the zero
  to be \<open>+0\<close>; no property below divides a nonzero number by zero.

  A read past the end of an array gives \<open>undefined\<close>, modelled by \<open>None\<close> of an option;
  arithmetic turns it into \<open>NaN\<close>.
\<close>

definition round_half_even :: "real \<Rightarrow> int" where
  "round_half_even r =
     (let f = \<lfloor>r\<rfloor>
      in if r - of_int f < 1 / 2 then f
         else if 1 / 2 < r - of_int f then f + 1
         else if even f then f else f + 1)"

definition exponent :: "real \<Rightarrow> int" where
  "exponent x =
     (let a = \<bar>x\<bar>
      in max (if 1 \<le> a then bitlen \<lfloor>a\<rfloor> - 1 else - bitlen (\<lceil>1 / a\<rceil> - 1)) (- 1022))"

definition round_double :: "real \<Rightarrow> real" where
  "round_double x =
     (if x = 0 then 0
      else of_int (round_half_even (x / 2 powi (exponent x - 52))) * 2 powi (exponent x - 52))"

definition overflow_threshold :: real where
  "overflow_threshold = 2 ^ 1024"

datatype number = Num real | PosInfinity | NegInfinity | NaN

text \<open>\<open>fl x\<close> is the number an operation returns when its exact result is \<open>x\<close>.\<close>

definition fl :: "real \<Rightarrow> number" where
  "fl x =
     (let y = round_double x
      in if overflow_threshold \<le> y then PosInfinity
         else if y \<le> - overflow_threshold then NegInfinity
         else Num y)"

definition is_double :: "real \<Rightarrow> bool" where
  "is_double x = (round_double x = x \<and> \<bar>x\<bar> < overflow_threshold)"

text \<open>Unary minus is exact.\<close>

fun js_neg :: "number \<Rightarrow> number" where
  "js_neg (Num a) = Num (- a)"
| "js_neg PosInfinity = NegInfinity"
| "js_neg NegInfinity = PosInfinity"
| "js_neg NaN = NaN"

fun js_sub :: "number \<Rightarrow> number \<Rightarrow> number" where
  "js_sub NaN _ = NaN"
| "js_sub _ NaN = NaN"
| "js_sub (Num a) (Num b) = fl (a - b)"
| "js_sub (Num a) PosInfinity = NegInfinity"
| "js_sub (Num a) NegInfinity = PosInfinity"
| "js_sub PosInfinity PosInfinity = NaN"
| "js_sub PosInfinity _ = PosInfinity"
| "js_sub NegInfinity NegInfinity = NaN"
| "js_sub NegInfinity _ = NegInfinity"

fun js_mul :: "number \<Rightarrow> number \<Rightarrow> number" where
  "js_mul NaN _ = NaN"
| "js_mul _ NaN = NaN"
| "js_mul (Num a) (Num b) = fl (a * b)"
| "js_mul (Num a) PosInfinity =
     (if a = 0 then NaN else if 0 < a then PosInfinity else NegInfinity)"
| "js_mul (Num a) NegInfinity =
     (if a = 0 then NaN else if 0 < a then NegInfinity else PosInfinity)"
| "js_mul PosInfinity (Num b) =
     (if b = 0 then NaN else if 0 < b then PosInfinity else NegInfinity)"
| "js_mul NegInfinity (Num b) =
     (if b = 0 then NaN else if 0 < b then NegInfinity else PosInfinity)"
| "js_mul PosInfinity PosInfinity = PosInfinity"
| "js_mul PosInfinity NegInfinity = NegInfinity"
| "js_mul NegInfinity PosInfinity = NegInfinity"
| "js_mul NegInfinity NegInfinity = PosInfinity"

text \<open>
  Division: zero over zero is \<open>NaN\<close>, a finite nonzero number over zero is an infinity (of
  the sign of the dividend: the zero is taken to be \<open>+0\<close>), a finite number over an infinity
  is zero.
\<close>

fun js_div :: "number \<Rightarrow> number \<Rightarrow> number" where
  "js_div NaN _ = NaN"
| "js_div _ NaN = NaN"
| "js_div (Num a) (Num b) =
     (if b \<noteq> 0 then fl (a / b)
      else if a = 0 then NaN
      else if 0 < a then PosInfinity else NegInfinity)"
| "js_div (Num a) _ = Num 0"
| "js_div PosInfinity (Num b) = (if 0 \<le> b then PosInfinity else NegInfinity)"
| "js_div NegInfinity (Num b) = (if 0 \<le> b then NegInfinity else PosInfinity)"
| "js_div _ _ = NaN"

text \<open>The comparisons \<open><\<close>, \<open><=\<close> and \<open>===\<close>: each is false as soon as one side is \<open>NaN\<close>.\<close>

fun js_lt :: "number \<Rightarrow> number \<Rightarrow> bool" where
  "js_lt NaN _ = False"
| "js_lt _ NaN = False"
| "js_lt (Num a) (Num b) = (a < b)"
| "js_lt (Num a) PosInfinity = True"
| "js_lt (Num a) NegInfinity = False"
| "js_lt PosInfinity _ = False"
| "js_lt NegInfinity NegInfinity = False"
| "js_lt NegInfinity _ = True"

fun js_eq :: "number \<Rightarrow> number \<Rightarrow> bool" where
  "js_eq NaN _ = False"
| "js_eq _ NaN = False"
| "js_eq a b = (a = b)"

definition js_le :: "number \<Rightarrow> number \<Rightarrow> bool" where
  "js_le a b = (js_lt a b \<or> js_eq a b)"

text \<open>\<open>Math.min(a, b)\<close>, \<open>Math.max(a, b)\<close> and their spread forms \<open>Math.min(...values)\<close>.\<close>

fun Math_min2 :: "number \<Rightarrow> number \<Rightarrow> number" where
  "Math_min2 NaN _ = NaN"
| "Math_min2 _ NaN = NaN"
| "Math_min2 a b = (if js_lt b a then b else a)"

fun Math_max2 :: "number \<Rightarrow> number \<Rightarrow> number" where
  "Math_max2 NaN _ = NaN"
| "Math_max2 _ NaN = NaN"
| "Math_max2 a b = (if js_lt a b then b else a)"

definition Math_min :: "number list \<Rightarrow> number" where
  "Math_min vs = foldr Math_min2 vs PosInfinity"

definition Math_max :: "number list \<Rightarrow> number" where
  "Math_max vs = foldr Math_max2 vs NegInfinity"

fun Math_floor :: "number \<Rightarrow> number" where
  "Math_floor (Num a) = Num (of_int \<lfloor>a\<rfloor>)"
| "Math_floor v = v"


text \<open>
  \<open>xs[i]\<close> for a natural number \<open>i\<close> is \<open>undefined\<close> past the end; a number operator reads
  \<open>undefined\<close> as \<open>NaN\<close>. \<open>js_index\<close> is \<open>xs[k]\<close> for a number \<open>k\<close>: an element when \<open>k\<close> is an
  integer position of the array, \<open>undefined\<close> otherwise.
\<close>

definition js_nth :: "'a list \<Rightarrow> nat \<Rightarrow> 'a option" where
  "js_nth xs i = (if i < length xs then Some (xs ! i) else None)"

fun js_index :: "'a list \<Rightarrow> number \<Rightarrow> 'a option" where
  "js_index xs (Num k) =
     (if 0 \<le> k \<and> k < real (length xs) \<and> of_int \<lfloor>k\<rfloor> = k then Some (xs ! nat \<lfloor>k\<rfloor>) else None)"
| "js_index xs _ = None"

fun to_number :: "number option \<Rightarrow> number" where
  "to_number (Some v) = v"
| "to_number None = NaN"

text \<open>\<open>Math.LN2\<close> is the double nearest to \<open>ln 2\<close>, 0.6931471805599453.\<close>

definition LN2 :: real where
  "LN2 = 6243314768165359 / 2 ^ 53"

section \<open>Confidence metrics (src/utils/confidenceMetrics.ts)\<close>

datatype NormalizationMode = Local | Global

datatype MetricType = Surprisal | Gap | Confidence

record GlobalStats =
  surprisal_p5 :: number
  surprisal_p95 :: number
  gap_p5 :: number
  gap_p95 :: number

text \<open>
  A \<open>TokenMetrics\<close> object. The fields the code fills from an array read
  (\<open>logprobs[i]\<close>, \<open>surprisals[i]\<close>, ...) hold \<open>undefined\<close> when \<open>tokens\<close> is longer than that
  array, hence the options.
\<close>

record TokenMetrics =
  token :: string
  confidence :: number
  logprob :: "number option"
  logprob2 :: "number option"
  surprisal :: "number option"
  confidenceScore :: "number option"
  gap :: "number option"
  normalizedSurprisal :: "number option"
  normalizedConfidence :: "number option"
  normalizedGap :: "number option"

datatype error = Error string

definition computeSurprisal :: "number \<Rightarrow> number" where
  "computeSurprisal lp = js_div (js_neg lp) (Num LN2)"

definition computeConfidence :: "number \<Rightarrow> number \<Rightarrow> number" where
  "computeConfidence s maxSurprisal =
     (let clampedSurprisal = Math_min2 s maxSurprisal
      in js_sub (Num 1) (js_div clampedSurprisal maxSurprisal))"


definition computeGap :: "number \<Rightarrow> number \<Rightarrow> number" where
  "computeGap lp lp2 = js_sub lp lp2"

definition normalizeLocal :: "number list \<Rightarrow> number list" where
  "normalizeLocal vs =
     (let mn = Math_min vs; mx = Math_max vs
      in if js_eq mx mn then map (\<lambda>_. Num 0.5) vs
         else map (\<lambda>v. js_div (js_sub v mn) (js_sub mx mn)) vs)"

definition normalizeGlobal :: "number list \<Rightarrow> number \<Rightarrow> number \<Rightarrow> number list" where
  "normalizeGlobal vs p5 p95 =
     (let range = js_sub p95 p5
      in if js_eq range (Num 0) then map (\<lambda>_. Num 0.5) vs
         else map (\<lambda>v. let normalized = js_div (js_sub v p5) range
                        in Math_max2 (Num 0) (Math_min2 (Num 1) normalized)) vs)"

text \<open>
  \<open>computeTokenMetrics\<close>. The indexed \<open>map\<close> over \<open>logprobs\<close> reads \<open>logprobs2[i]\<close>, which is
  \<open>undefined\<close> past the end of \<open>logprobs2\<close>; the result has one object per token. The
  argument \<open>metric\<close> (\<open>_metric\<close> in the source) is unused. In global mode without statistics the
  code throws. The first argument is the implementation's \<open>Math.exp\<close>.
\<close>

definition buildResult ::
  "(number \<Rightarrow> number) \<Rightarrow> string list \<Rightarrow> number list \<Rightarrow> number list \<Rightarrow> number list \<Rightarrow>
   number list \<Rightarrow> number list \<Rightarrow> number list \<Rightarrow> number list \<Rightarrow> number list \<Rightarrow>
   TokenMetrics list" where
  "buildResult Math_exp tokens logprobs logprobs2 surprisals confidenceScores gaps
     normalizedSurprisals normalizedConfidences normalizedGaps =
     map (\<lambda>i. \<lparr> token = tokens ! i,
                confidence = Math_exp (to_number (js_nth logprobs i)),
                logprob = js_nth logprobs i,
                logprob2 = js_nth logprobs2 i,
                surprisal = js_nth surprisals i,
                confidenceScore = js_nth confidenceScores i,
                gap = js_nth gaps i,
                normalizedSurprisal = js_nth normalizedSurprisals i,
                normalizedConfidence = js_nth normalizedConfidences i,
                normalizedGap = js_nth normalizedGaps i \<rparr>)
         [0 ..< length tokens]"

definition computeTokenMetrics ::
  "(number \<Rightarrow> number) \<Rightarrow> string list \<Rightarrow> number list \<Rightarrow> number list \<Rightarrow> NormalizationMode \<Rightarrow>
   MetricType \<Rightarrow> GlobalStats option \<Rightarrow> error + TokenMetrics list" where
  "computeTokenMetrics Math_exp tokens logprobs logprobs2 mode metric globalStats =
     (let surprisals = map (\<lambda>lp. computeSurprisal lp) logprobs;
          gaps = map (\<lambda>i. computeGap (logprobs ! i) (to_number (js_nth logprobs2 i)))
                   [0 ..< length logprobs];
          maxSurprisal = Math_max surprisals;
          confidenceScores = map (\<lambda>s. computeConfidence s maxSurprisal) surprisals
      in case mode of
           Local \<Rightarrow>
             Inr (buildResult Math_exp tokens logprobs logprobs2 surprisals confidenceScores gaps
                    (normalizeLocal surprisals)
                    (normalizeLocal confidenceScores)
                    (normalizeLocal gaps))
         | Global \<Rightarrow>
             (case globalStats of
                None \<Rightarrow> Inl (Error ''Global stats required for global normalization'')
              | Some stats \<Rightarrow>
                  (let confidenceP5 = computeConfidence (surprisal_p95 stats) maxSurprisal;
                       confidenceP95 = computeConfidence (surprisal_p5 stats) maxSurprisal
                   in Inr (buildResult Math_exp tokens logprobs logprobs2 surprisals
                             confidenceScores gaps
                             (normalizeGlobal surprisals (surprisal_p5 stats) (surprisal_p95 stats))
                             (normalizeGlobal confidenceScores confidenceP5 confidenceP95)
                             (normalizeGlobal gaps (gap_p5 stats) (gap_p95 stats))))))"

text \<open>
  \<open>computePercentile\<close>, on finite values (on doubles the comparator \<open>(a, b) => a - b\<close> has the
  sign of the exact difference, so the copy is sorted ascending). The index is
  \<open>Math.floor(sorted.length * percentile)\<close>, the floor of the rounded product of two doubles;
  \<open>sorted[index]\<close> is \<open>undefined\<close> (\<open>None\<close>) when it is not a position of the array. The
  length of an array is an integer below \<open>2 ^ 32\<close>, hence a double.
\<close>

definition computePercentile :: "real list \<Rightarrow> real \<Rightarrow> real option" where
  "computePercentile vs percentile =
     (let sorted = sort vs;
          index = Math_floor (js_mul (Num (real (length sorted))) (Num percentile))
      in js_index sorted index)"


section \<open>The scatter plot (src/components/EmbeddingVisualization.tsx)\<close>

text \<open>
  A \<open>DataPoint\<close> is read from JSON, so its numbers are finite: they are reals here. The
  fields \<open>x\<close>, \<open>y\<close> and \<open>id\<close> are written \<open>point_x\<close>, \<open>point_y\<close> and \<open>point_id\<close>; an absent
  optional field (\<open>undefined\<close>) is \<open>None\<close>.
\<close>

record DataPoint =
  point_x :: real
  point_y :: real
  cluster :: real
  point_id :: real
  question :: string
  isCorrect :: "real option"
  avgConfidence :: "real option"

datatype CorrectnessFilterType = FilterAll | FilterCorrect | FilterIncorrect

text \<open>
  The callback of \<open>data.filter\<close> that computes \<open>filteredData\<close>, with its early returns in the
  order of the source. \<open>d.isCorrect !== 1\<close> holds for an absent \<open>isCorrect\<close>.
\<close>

definition keepPoint ::
  "real set \<Rightarrow> CorrectnessFilterType \<Rightarrow> real \<times> real \<Rightarrow> DataPoint \<Rightarrow> bool" where
  "keepPoint activeClusters correctnessFilter confidenceRange d =
     (if cluster d \<notin> activeClusters then False
      else if (case avgConfidence d of
                 None \<Rightarrow> False
               | Some c \<Rightarrow> c < fst confidenceRange \<or> c > snd confidenceRange) then False
      else if correctnessFilter = FilterCorrect \<and> isCorrect d \<noteq> Some 1 then False
      else if correctnessFilter = FilterIncorrect \<and> isCorrect d \<noteq> Some 0 then False
      else True)"

definition filteredData ::
  "DataPoint list \<Rightarrow> real set \<Rightarrow> CorrectnessFilterType \<Rightarrow> real \<times> real \<Rightarrow> DataPoint list" where
  "filteredData data activeClusters correctnessFilter confidenceRange =
     filter (keepPoint activeClusters correctnessFilter confidenceRange) data"

text \<open>
  The three predicates of the filter, each on its own: cluster membership, correctness
  equality and confidence range inclusion. In \<open>correctnessPredicate\<close> a point without
  \<open>isCorrect\<close> passes only the choice "all"; \<open>correctnessPredicate_lenient\<close> is the reading
  in which an absent \<open>isCorrect\<close> passes every choice.
\<close>

definition clusterPredicate :: "real set \<Rightarrow> DataPoint \<Rightarrow> bool" where
  "clusterPredicate activeClusters d = (cluster d \<in> activeClusters)"

definition correctnessPredicate :: "CorrectnessFilterType \<Rightarrow> DataPoint \<Rightarrow> bool" where
  "correctnessPredicate correctnessFilter d =
     (case correctnessFilter of
        FilterAll \<Rightarrow> True
      | FilterCorrect \<Rightarrow> isCorrect d = Some 1
      | FilterIncorrect \<Rightarrow> isCorrect d = Some 0)"

definition correctnessPredicate_lenient :: "CorrectnessFilterType \<Rightarrow> DataPoint \<Rightarrow> bool" where
  "correctnessPredicate_lenient correctnessFilter d =
     (case isCorrect d of
        None \<Rightarrow> True
      | Some v \<Rightarrow> correctnessPredicate correctnessFilter d)"

definition confidencePredicate :: "real \<times> real \<Rightarrow> DataPoint \<Rightarrow> bool" where
  "confidencePredicate confidenceRange d =
     (case avgConfidence d of
        None \<Rightarrow> True
      | Some c \<Rightarrow> fst confidenceRange \<le> c \<and> c \<le> snd confidenceRange)"

section \<open>The response store (src/utils/responseDB.ts)\<close>

definition DB_VERSION :: nat where
  "DB_VERSION = 2"

text \<open>
  A stored record; its fields \<open>i\<close>, \<open>p\<close>, \<open>r\<close>, \<open>t\<close>, \<open>c\<close>, \<open>lp\<close>, \<open>lp2\<close>, \<open>g\<close>, \<open>a\<close>, \<open>x\<close> carry the
  prefix \<open>rd_\<close>. The records come from JSON, so the key \<open>i\<close> is a finite number.
\<close>

record ResponseData =
  rd_i :: real
  rd_p :: string
  rd_r :: string
  rd_t :: "string list"
  rd_c :: "real list"
  rd_lp :: "real list option"
  rd_lp2 :: "real list option"
  rd_g :: "string option"
  rd_a :: "string option"
  rd_x :: "real option"

text \<open>
  The IndexedDB database \<open>GSM8K_Responses\<close>: its version (0 before it is first created)
  and its object store \<open>responses\<close> (\<open>None\<close> while the store does not exist), a list of
  records with their keys (key path \<open>i\<close>), one record per key. \<open>put\<close> overwrites the
  record of the same key or adds one.
\<close>

type_synonym object_store = "(real \<times> ResponseData) list"

record database =
  version :: nat
  objectStore :: "object_store option"

definition put :: "object_store \<Rightarrow> ResponseData \<Rightarrow> object_store" where
  "put s item = AList.update (rd_i item) item s"

text \<open>The handler \<open>request.onupgradeneeded\<close> of \<open>init\<close>, run when the stored version is older.\<close>

definition onupgradeneeded :: "database \<Rightarrow> database" where
  "onupgradeneeded d =
     (let oldVersion = version d;
          afterDelete = (if oldVersion = 1 \<and> DB_VERSION = 2 then None else objectStore d);
          afterCreate = (case afterDelete of None \<Rightarrow> Some [] | Some s \<Rightarrow> Some s)
      in \<lparr> version = DB_VERSION, objectStore = afterCreate \<rparr>)"

text \<open>
  The asynchronous methods are modelled as coroutines that are resumed one \<open>await\<close> at a
  time, so that calls can interleave. A promise is pending, fulfilled or rejected. What
  the environment decides (whether the open request, the count request, the fetch and
  the write transaction succeed) is a parameter of the steps.
\<close>

datatype promise = Pending | Fulfilled | Rejected error

record response =
  ok :: bool
  statusText :: string
  json :: "error + ResponseData list"

record environment =
  open_error :: "error option"
  count_error :: "error option"
  fetch_result :: "string \<Rightarrow> error + response"
  transaction_error :: "error option"

text \<open>Where a call of \<open>count\<close> and a call of \<open>_loadFromFileInternal\<close> are suspended.\<close>

datatype count_pc =
    CountAwaitInit
  | CountAwaitRequest
  | CountReturned "error + nat"

datatype load_pc =
    LoadAwaitInit
  | LoadAwaitCount count_pc
  | LoadAwaitFetch
  | LoadAwaitJson response
  | LoadAwaitTransaction "ResponseData list"
  | LoadReturned "error + unit"

text \<open>
  A running call: \<open>_loadFromFileInternal(url, onProgress)\<close> (the flag says whether a
  callback was passed) or \<open>count()\<close>. The promise of a call is its position in \<open>tasks\<close>.
\<close>

datatype task = LoadTask string bool load_pc | CountTask count_pc

text \<open>
  The state: the fields \<open>db\<close> (is it set), \<open>initPromise\<close> and \<open>loadPromise\<close> of the
  \<open>ResponseDB\<close> object, the database, the running calls, the URLs fetched so far and the
  calls of \<open>onProgress\<close> so far, each as (task, loaded, total, fromCache).
\<close>

record world =
  db :: bool
  initPromise :: "promise option"
  loadPromise :: "nat option"
  idb :: database
  tasks :: "task list"
  fetched :: "string list"
  progress :: "(nat \<times> nat \<times> nat \<times> bool option) list"

text \<open>
  \<open>init()\<close> up to its return: nothing when \<open>db\<close> is set or an \<open>initPromise\<close> exists,
  otherwise a new pending promise whose executor issues the open request. \<open>init_result\<close> is
  what \<open>await this.init()\<close> then sees.
\<close>

definition init :: "world \<Rightarrow> world" where
  "init w =
     (if db w then w
      else if initPromise w \<noteq> None then w
      else w\<lparr>initPromise := Some Pending\<rparr>)"

definition init_result :: "world \<Rightarrow> promise" where
  "init_result w =
     (if db w then Fulfilled
      else case initPromise w of None \<Rightarrow> Pending | Some s \<Rightarrow> s)"

text \<open>
  The open request completes: \<open>onerror\<close> rejects the promise; otherwise the upgrade handler
  runs if the stored version is older, and \<open>onsuccess\<close> sets \<open>db\<close> and resolves. A stored
  version newer than \<open>DB_VERSION\<close> makes the request fail.
\<close>

definition open_done :: "environment \<Rightarrow> world \<Rightarrow> world" where
  "open_done env w =
     (if initPromise w \<noteq> Some Pending then w
      else case open_error env of
             Some e \<Rightarrow> w\<lparr>initPromise := Some (Rejected e)\<rparr>
           | None \<Rightarrow>
               if DB_VERSION < version (idb w)
               then w\<lparr>initPromise := Some (Rejected (Error ''VersionError''))\<rparr>
               else w\<lparr>idb := (if version (idb w) < DB_VERSION
                               then onupgradeneeded (idb w) else idb w),
                      db := True,
                      initPromise := Some Fulfilled\<rparr>)"

text \<open>One step of \<open>count()\<close>: past \<open>await this.init()\<close>, then past the count request.\<close>

fun count_step :: "environment \<Rightarrow> world \<Rightarrow> count_pc \<Rightarrow> count_pc" where
  "count_step env w CountAwaitInit =
     (case init_result w of
        Pending \<Rightarrow> CountAwaitInit
      | Rejected e \<Rightarrow> CountReturned (Inl e)
      | Fulfilled \<Rightarrow>
          if \<not> db w then CountReturned (Inr 0)
          else (case objectStore (idb w) of
                  None \<Rightarrow> CountReturned (Inl (Error ''NotFoundError''))
                | Some s \<Rightarrow> CountAwaitRequest))"
| "count_step env w CountAwaitRequest =
     (case count_error env of
        Some e \<Rightarrow> CountReturned (Inl e)
      | None \<Rightarrow>
          (case objectStore (idb w) of
             None \<Rightarrow> CountReturned (Inl (Error ''NotFoundError''))
           | Some s \<Rightarrow> CountReturned (Inr (length s))))"
| "count_step env w (CountReturned r) = CountReturned r"

text \<open>The calls \<open>onProgress(loaded, total)\<close> of the write loop, one every 100 records.\<close>

definition write_reports :: "nat \<Rightarrow> nat \<Rightarrow> (nat \<times> nat \<times> nat \<times> bool option) list" where
  "write_reports k totalCount =
     map (\<lambda>loaded. (k, loaded, totalCount, None))
       (filter (\<lambda>loaded. loaded mod 100 = 0) [1 ..< Suc totalCount])"

definition report :: "bool \<Rightarrow> (nat \<times> nat \<times> nat \<times> bool option) list \<Rightarrow> world \<Rightarrow> world" where
  "report onProgress calls w = (if onProgress then w\<lparr>progress := progress w @ calls\<rparr> else w)"

text \<open>
  One step of \<open>_loadFromFileInternal\<close>, task \<open>k\<close>: past \<open>await this.init()\<close>, through the
  nested \<open>count()\<close>, the cache test, \<open>fetch\<close>, \<open>response.json()\<close>, the write loop, and the
  completion of the transaction, which commits the writes.
\<close>

fun load_step ::
  "environment \<Rightarrow> nat \<Rightarrow> string \<Rightarrow> bool \<Rightarrow> world \<Rightarrow> load_pc \<Rightarrow> load_pc \<times> world" where
  "load_step env k url onProgress w LoadAwaitInit =
     (case init_result w of
        Pending \<Rightarrow> (LoadAwaitInit, w)
      | Rejected e \<Rightarrow> (LoadReturned (Inl e), w)
      | Fulfilled \<Rightarrow>
          if \<not> db w then (LoadReturned (Inl (Error ''DB not initialized'')), w)
          else (LoadAwaitCount CountAwaitInit, init w))"
| "load_step env k url onProgress w (LoadAwaitCount (CountReturned (Inl e))) =
     (LoadReturned (Inl e), w)"
| "load_step env k url onProgress w (LoadAwaitCount (CountReturned (Inr n))) =
     (if n > 0 then (LoadReturned (Inr ()), report onProgress [(k, n, n, Some True)] w)
      else (LoadAwaitFetch, w\<lparr>fetched := fetched w @ [url]\<rparr>))"
| "load_step env k url onProgress w (LoadAwaitCount pc) =
     (LoadAwaitCount (count_step env w pc), w)"
| "load_step env k url onProgress w LoadAwaitFetch =
     (case fetch_result env url of
        Inl e \<Rightarrow> (LoadReturned (Inl e), w)
      | Inr resp \<Rightarrow>
          if \<not> ok resp
          then (LoadReturned (Inl (Error (''Failed to fetch: '' @ statusText resp))), w)
          else (LoadAwaitJson resp, w))"
| "load_step env k url onProgress w (LoadAwaitJson resp) =
     (case json resp of
        Inl e \<Rightarrow> (LoadReturned (Inl e), w)
      | Inr data \<Rightarrow>
          (case objectStore (idb w) of
             None \<Rightarrow> (LoadReturned (Inl (Error ''NotFoundError'')), w)
           | Some s \<Rightarrow>
               (LoadAwaitTransaction data,
                report onProgress (write_reports k (length data)) w)))"
| "load_step env k url onProgress w (LoadAwaitTransaction data) =
     (case transaction_error env of
        Some e \<Rightarrow> (LoadReturned (Inl e), w)
      | None \<Rightarrow>
          (LoadReturned (Inr ()),
           report onProgress [(k, length data, length data, None)]
             (w\<lparr>idb := (idb w)\<lparr>objectStore :=
                    map_option (\<lambda>s. foldl put s data) (objectStore (idb w))\<rparr>\<rparr>)))"
| "load_step env k url onProgress w (LoadReturned r) = (LoadReturned r, w)"

text \<open>
  \<open>loadFromFile\<close> up to its return: with a \<open>loadPromise\<close> it returns that promise; otherwise
  it starts \<open>_loadFromFileInternal\<close>, which runs up to its first \<open>await\<close> (the call of
  \<open>init\<close>), and stores the new promise. \<open>count_db\<close> is the public \<open>count()\<close> up to its return.
\<close>

definition loadFromFile :: "string \<Rightarrow> bool \<Rightarrow> world \<Rightarrow> nat \<times> world" where
  "loadFromFile url onProgress w =
     (case loadPromise w of
        Some p \<Rightarrow> (p, w)
      | None \<Rightarrow>
          (let w1 = init w;
               p = length (tasks w1)
           in (p, w1\<lparr>tasks := tasks w1 @ [LoadTask url onProgress LoadAwaitInit],
                     loadPromise := Some p\<rparr>)))"

definition count_db :: "world \<Rightarrow> nat \<times> world" where
  "count_db w =
     (let w1 = init w;
          p = length (tasks w1)
      in (p, w1\<lparr>tasks := tasks w1 @ [CountTask CountAwaitInit]\<rparr>))"

text \<open>
  The scheduler: \<open>resume\<close> runs task \<open>k\<close> to its next \<open>await\<close>; \<open>tick\<close> completes a pending
  open request, or else resumes the first call that has not returned; \<open>run\<close> makes \<open>n\<close>
  ticks. \<open>fresh\<close> is the state at page load, over a given database.
\<close>

definition resume :: "environment \<Rightarrow> nat \<Rightarrow> world \<Rightarrow> world" where
  "resume env k w =
     (if k < length (tasks w) then
        (case tasks w ! k of
           LoadTask url onProgress pc \<Rightarrow>
             (let (pc', w') = load_step env k url onProgress w pc
              in w'\<lparr>tasks := (tasks w')[k := LoadTask url onProgress pc']\<rparr>)
         | CountTask pc \<Rightarrow> w\<lparr>tasks := (tasks w)[k := CountTask (count_step env w pc)]\<rparr>)
      else w)"

fun returned :: "task \<Rightarrow> bool" where
  "returned (LoadTask url onProgress (LoadReturned r)) = True"
| "returned (CountTask (CountReturned r)) = True"
| "returned t = False"

definition tick :: "environment \<Rightarrow> world \<Rightarrow> world" where
  "tick env w =
     (if initPromise w = Some Pending then open_done env w
      else case filter (\<lambda>k. \<not> returned (tasks w ! k)) [0 ..< length (tasks w)] of
             [] \<Rightarrow> w
           | k # ks \<Rightarrow> resume env k w)"

definition run :: "environment \<Rightarrow> nat \<Rightarrow> world \<Rightarrow> world" where
  "run env n w = (tick env ^^ n) w"

definition fresh :: "database \<Rightarrow> world" where
  "fresh d =
     \<lparr> db = False, initPromise = None, loadPromise = None, idb = d,
       tasks = [], fetched = [], progress = [] \<rparr>"

text \<open>Sample data for the examples: a record with a key, and an environment in which
  only the open request can fail and every fetch returns the given records.\<close>

definition sample_record :: "real \<Rightarrow> string \<Rightarrow> ResponseData" where
  "sample_record k txt =
     \<lparr> rd_i = k, rd_p = txt, rd_r = [], rd_t = [], rd_c = [], rd_lp = None,
       rd_lp2 = None, rd_g = None, rd_a = None, rd_x = None \<rparr>"

definition sample_environment :: "error option \<Rightarrow> ResponseData list \<Rightarrow> environment" where
  "sample_environment failure items =
     \<lparr> open_error = failure, count_error = None,
       fetch_result = (\<lambda>url. Inr \<lparr> ok = True, statusText = ''OK'', json = Inr items \<rparr>),
       transaction_error = None \<rparr>"

section \<open>Properties of the rounding\<close>

lemma rhe_of_int [simp]: "round_half_even (of_int n) = n"
  by (simp add: round_half_even_def)

lemma rhe_bounds: "of_int (round_half_even r) \<le> r + 1 / 2" "r - 1 / 2 \<le> of_int (round_half_even r)"
  unfolding round_half_even_def Let_def by (auto; linarith)+

lemma rhe_mono: "r \<le> s \<Longrightarrow> round_half_even r \<le> round_half_even s"
proof -
  assume rs: "r \<le> s"
  have f: "\<lfloor>r\<rfloor> \<le> \<lfloor>s\<rfloor>" using rs by (rule floor_mono)
  show ?thesis
  proof (cases "\<lfloor>r\<rfloor> = \<lfloor>s\<rfloor>")
    case True
    then show ?thesis using rs
      unfolding round_half_even_def Let_def by auto
  next
    case False
    then have "\<lfloor>r\<rfloor> + 1 \<le> \<lfloor>s\<rfloor>" using f by linarith
    moreover have "round_half_even r \<le> \<lfloor>r\<rfloor> + 1"
      unfolding round_half_even_def Let_def by auto
    moreover have "\<lfloor>s\<rfloor> \<le> round_half_even s"
      unfolding round_half_even_def Let_def by auto
    ultimately show ?thesis by linarith
  qed
qed

lemma rhe_minus: "round_half_even (- r) = - round_half_even r"
proof (cases "r \<in> \<int>")
  case True
  then obtain n where "r = of_int n" by (auto elim: Ints_cases)
  then show ?thesis by (simp flip: of_int_minus)
next
  case False
  have ne: "r \<noteq> of_int \<lfloor>r\<rfloor>" using False by (metis Ints_of_int)
  then have fl: "\<lfloor>- r\<rfloor> = - \<lfloor>r\<rfloor> - 1"
    by (simp add: floor_minus ceiling_altdef)
  have frac: "r - of_int \<lfloor>r\<rfloor> < 1" "0 < r - of_int \<lfloor>r\<rfloor>"
    using ne by linarith+
  show ?thesis
    unfolding round_half_even_def Let_def fl using frac
    by (auto simp: algebra_simps)
qed

lemma powr_split: "(2::real) powr a = 2 ^ n * 2 powr (a - of_nat n)"
proof -
  have "(2::real) ^ n = 2 powr of_nat n" by (simp add: powr_realpow)
  then have "2 ^ n * 2 powr (a - of_nat n) = (2::real) powr (of_nat n + (a - of_nat n))"
    by (simp only: powr_add)
  then show ?thesis by simp
qed

text \<open>
  The exponent is the floor of the binary logarithm, at least \<open>-1022\<close>, and the unit
  \<open>2 powi (e - 52)\<close> is a real power of 2: the rounding lemmas below use this form.
\<close>

lemma powr_neg_nat: "(2::real) powr (- real k) = 1 / 2 ^ k"
  by (simp add: powr_minus powr_realpow inverse_eq_divide)

lemma powi_powr: "2 powi k = (2::real) powr of_int k"
  by (simp add: powr_int power_int_def inverse_eq_divide power_one_over)

lemma floor_log_ge_1:
  assumes "1 \<le> a"
  shows "\<lfloor>log 2 a\<rfloor> = bitlen \<lfloor>a\<rfloor> - 1"
proof -
  define m where "m = \<lfloor>a\<rfloor>"
  have ma: "real_of_int m \<le> a" "a < real_of_int m + 1" unfolding m_def by linarith+
  have m: "0 < m" using assms unfolding m_def by simp
  have b: "1 \<le> bitlen m" using m by (auto simp: bitlen_alt_def)
  define n where "n = nat (bitlen m - 1)"
  have n: "int n = bitlen m - 1" "nat (bitlen m) = n + 1" using b by (simp_all add: n_def)
  have bounds: "2 ^ n \<le> m" "m < 2 ^ (n + 1)"
    using bitlen_bounds [OF m] by (simp_all add: n_def [symmetric] n(2))
  have "real_of_int (2 ^ n) \<le> real_of_int m" using bounds(1) by (simp only: of_int_le_iff)
  then have "2 ^ n \<le> real_of_int m" by simp
  then have lo: "2 ^ n \<le> a" using ma(1) by linarith
  have "m + 1 \<le> 2 ^ (n + 1)" using bounds(2) by simp
  then have "real_of_int (m + 1) \<le> real_of_int (2 ^ (n + 1))" by (simp only: of_int_le_iff)
  then have "real_of_int m + 1 \<le> 2 ^ (n + 1)" by simp
  then have hi: "a < 2 ^ (n + 1)" using ma(2) by linarith
  have "\<lfloor>log 2 a\<rfloor> = int n"
    using assms lo hi floor_log_eq_powr_iff [of a 2 "int n"]
    by (simp add: powr_realpow powr_add)
  then show ?thesis by (simp add: n(1) m_def)
qed

lemma floor_log_lt_1:
  assumes "0 < a" and "a < 1"
  shows "\<lfloor>log 2 a\<rfloor> = - bitlen (\<lceil>1 / a\<rceil> - 1)"
proof -
  define y where "y = 1 / a"
  define m where "m = \<lceil>y\<rceil> - 1"
  have y: "1 < y" using assms by (simp add: y_def)
  have my: "real_of_int m < y" "y \<le> real_of_int m + 1" unfolding m_def by linarith+
  have m: "0 < m" using y unfolding m_def by linarith
  have b: "1 \<le> bitlen m" using m by (auto simp: bitlen_alt_def)
  define n where "n = nat (bitlen m - 1)"
  have n: "int n = bitlen m - 1" "nat (bitlen m) = n + 1" using b by (simp_all add: n_def)
  have bounds: "2 ^ n \<le> m" "m < 2 ^ (n + 1)"
    using bitlen_bounds [OF m] by (simp_all add: n_def [symmetric] n(2))
  have "real_of_int (2 ^ n) \<le> real_of_int m" using bounds(1) by (simp only: of_int_le_iff)
  then have "2 ^ n \<le> real_of_int m" by simp
  then have lo: "2 ^ n < y" using my(1) by linarith
  have "m + 1 \<le> 2 ^ (n + 1)" using bounds(2) by simp
  then have "real_of_int (m + 1) \<le> real_of_int (2 ^ (n + 1))" by (simp only: of_int_le_iff)
  then have "real_of_int m + 1 \<le> 2 ^ (n + 1)" by simp
  then have hi: "y \<le> 2 ^ (n + 1)" using my(2) by linarith
  have a_lo: "1 / 2 ^ (n + 1) \<le> a"
  proof -
    have "1 \<le> a * 2 ^ (n + 1)"
      using hi assms(1) unfolding y_def by (simp add: divide_le_eq mult.commute)
    then show ?thesis by (simp add: divide_le_eq)
  qed
  have a_hi: "a < 1 / 2 ^ n"
  proof -
    have "a * 2 ^ n < 1"
      using lo assms(1) unfolding y_def by (simp add: less_divide_eq mult.commute)
    then show ?thesis by (simp add: less_divide_eq)
  qed
  have e: "real_of_int (- int (n + 1)) = - real (n + 1)" "- real (n + 1) + 1 = - real n"
    by simp_all
  have "\<lfloor>log 2 a\<rfloor> = - int (n + 1)"
    using assms(1) a_lo a_hi floor_log_eq_powr_iff [of a 2 "- int (n + 1)"]
    unfolding e powr_neg_nat by (simp add: powr_neg_nat)
  then show ?thesis using n(1) by (simp add: m_def y_def)
qed

lemma exponent_log: "exponent x = max \<lfloor>log 2 \<bar>x\<bar>\<rfloor> (- 1022)"
proof -
  consider "x = 0" | "1 \<le> \<bar>x\<bar>" | "0 < \<bar>x\<bar>" "\<bar>x\<bar> < 1" by fastforce
  then show ?thesis
  proof cases
    case 1
    then show ?thesis by (simp add: exponent_def bitlen_alt_def log_def)
  next
    case 2
    then show ?thesis by (simp add: exponent_def floor_log_ge_1)
  next
    case 3
    then show ?thesis by (simp add: exponent_def floor_log_lt_1)
  qed
qed

lemma round_double_alt:
  "round_double x =
     (if x = 0 then 0
      else of_int (round_half_even (x / 2 powr (of_int (exponent x) - 52))) *
           2 powr (of_int (exponent x) - 52))"
  by (simp add: round_double_def powi_powr)

lemma exponent_ge: "- 1022 \<le> exponent x"
  by (simp add: exponent_log)

lemma exponent_minus [simp]: "exponent (- x) = exponent x"
  by (simp add: exponent_log)

lemma exponent_upper:
  assumes "x \<noteq> 0"
  shows "\<bar>x\<bar> < 2 powr (of_int (exponent x) + 1)"
proof -
  have "\<bar>x\<bar> < 2 powr (of_int \<lfloor>log 2 \<bar>x\<bar>\<rfloor> + 1)"
    using assms floor_log_eq_powr_iff [of "\<bar>x\<bar>" 2 "\<lfloor>log 2 \<bar>x\<bar>\<rfloor>"] by simp
  also have "\<dots> \<le> 2 powr (of_int (exponent x) + 1)"
    by (intro powr_mono) (simp_all add: exponent_log)
  finally show ?thesis .
qed

lemma exponent_lower:
  assumes "x \<noteq> 0" and "- 1022 < exponent x"
  shows "2 powr of_int (exponent x) \<le> \<bar>x\<bar>"
proof -
  have "exponent x = \<lfloor>log 2 \<bar>x\<bar>\<rfloor>" using assms(2) by (simp add: exponent_log max_def split: if_splits)
  then show ?thesis
    using assms(1) floor_log_eq_powr_iff [of "\<bar>x\<bar>" 2 "\<lfloor>log 2 \<bar>x\<bar>\<rfloor>"] by simp
qed

lemma exponent_eqI:
  assumes "2 powr of_int k \<le> \<bar>x\<bar>" and "\<bar>x\<bar> < 2 powr (of_int k + 1)" and "- 1022 \<le> k"
  shows "exponent x = k"
proof -
  have "0 < \<bar>x\<bar>" using assms(1) powr_gt_zero [of 2 "of_int k"] by linarith
  then have "\<lfloor>log 2 \<bar>x\<bar>\<rfloor> = k"
    using assms(1,2) floor_log_eq_powr_iff [of "\<bar>x\<bar>" 2 k] by simp
  then show ?thesis using assms(3) by (simp add: exponent_log)
qed


lemma exponent_mono:
  assumes "x \<noteq> 0" and "\<bar>x\<bar> \<le> \<bar>y\<bar>"
  shows "exponent x \<le> exponent y"
proof -
  have "log 2 \<bar>x\<bar> \<le> log 2 \<bar>y\<bar>" using assms by simp
  then have "\<lfloor>log 2 \<bar>x\<bar>\<rfloor> \<le> \<lfloor>log 2 \<bar>y\<bar>\<rfloor>" by (rule floor_mono)
  then show ?thesis by (simp add: exponent_log)
qed

lemma round_double_minus: "round_double (- x) = - round_double x"
  by (simp add: round_double_alt rhe_minus)

lemma round_double_0 [simp]: "round_double 0 = 0"
  by (simp add: round_double_alt)

lemma round_double_nonneg: "0 \<le> x \<Longrightarrow> 0 \<le> round_double x"
proof -
  assume x: "0 \<le> x"
  have "0 \<le> x / 2 powr (of_int (exponent x) - 52)" using x by simp
  then have "round_half_even 0 \<le> round_half_even (x / 2 powr (of_int (exponent x) - 52))"
    by (rule rhe_mono)
  then have "0 \<le> round_half_even (x / 2 powr (of_int (exponent x) - 52))"
    using rhe_of_int [of 0] by simp
  then show ?thesis by (simp add: round_double_alt)
qed

lemma round_double_upper:
  assumes "0 < x"
  shows "round_double x \<le> 2 powr (of_int (exponent x) + 1)"
proof -
  let ?u = "(2::real) powr (of_int (exponent x) - 52)"
  have "x < 2 powr (of_int (exponent x) + 1)" using exponent_upper [of x] assms by simp
  also have "\<dots> = 2 ^ 53 * ?u"
    using powr_split [of "of_int (exponent x) + 1" 53] by simp
  finally have "x / ?u \<le> of_int (2 ^ 53)" by (simp add: divide_le_eq)
  then have "round_half_even (x / ?u) \<le> round_half_even (of_int (2 ^ 53))"
    by (rule rhe_mono)
  then have "round_half_even (x / ?u) \<le> 2 ^ 53" by (simp only: rhe_of_int)
  then have "of_int (round_half_even (x / ?u)) * ?u \<le> 2 ^ 53 * ?u"
    by (intro mult_right_mono) (simp_all add: of_int_le_iff [of _ "2 ^ 53", simplified])
  also have "2 ^ 53 * ?u = 2 powr (of_int (exponent x) + 1)"
    using powr_split [of "of_int (exponent x) + 1" 53] by simp
  finally show ?thesis using assms by (simp add: round_double_alt)
qed

lemma round_double_lower:
  assumes "0 < x" and "2 powr of_int (exponent x) \<le> x"
  shows "2 powr of_int (exponent x) \<le> round_double x"
proof -
  let ?u = "(2::real) powr (of_int (exponent x) - 52)"
  have e: "(2::real) powr of_int (exponent x) = 2 ^ 52 * ?u"
    using powr_split [of "of_int (exponent x)" 52] by simp
  have "of_int (2 ^ 52) \<le> x / ?u" using assms(2) e by (simp add: le_divide_eq)
  then have "round_half_even (of_int (2 ^ 52)) \<le> round_half_even (x / ?u)"
    by (rule rhe_mono)
  then have "2 ^ 52 \<le> round_half_even (x / ?u)" by (simp only: rhe_of_int)
  then have "2 ^ 52 * ?u \<le> of_int (round_half_even (x / ?u)) * ?u"
    by (intro mult_right_mono) (simp_all add: of_int_le_iff [of "2 ^ 52", simplified])
  then show ?thesis using assms(1) e by (simp add: round_double_alt)
qed

lemma round_double_mono_pos:
  assumes "0 < x" and "x \<le> y"
  shows "round_double x \<le> round_double y"
proof -
  have y: "0 < y" using assms by simp
  have le: "exponent x \<le> exponent y" using assms by (intro exponent_mono) simp_all
  show ?thesis
  proof (cases "exponent x = exponent y")
    case True
    let ?u = "(2::real) powr (of_int (exponent y) - 52)"
    have "x / ?u \<le> y / ?u" using assms(2) by (simp add: divide_right_mono)
    then have "round_half_even (x / ?u) \<le> round_half_even (y / ?u)" by (rule rhe_mono)
    then have "of_int (round_half_even (x / ?u)) * ?u \<le> of_int (round_half_even (y / ?u)) * ?u"
      by (intro mult_right_mono) simp_all
    then show ?thesis using assms(1) y True by (simp add: round_double_alt)
  next
    case False
    then have lt: "exponent x < exponent y" using le by simp
    have "round_double x \<le> 2 powr (of_int (exponent x) + 1)"
      using assms(1) by (rule round_double_upper)
    also have "\<dots> \<le> 2 powr of_int (exponent y)"
      using lt by (intro powr_mono) simp_all
    also have "\<dots> \<le> round_double y"
    proof -
      have "- 1022 < exponent y" using lt exponent_ge [of x] by linarith
      then have "2 powr of_int (exponent y) \<le> \<bar>y\<bar>" using y by (intro exponent_lower) simp_all
      then show ?thesis using y by (intro round_double_lower) simp_all
    qed
    finally show ?thesis .
  qed
qed

lemma round_double_mono:
  assumes "x \<le> y"
  shows "round_double x \<le> round_double y"
proof -
  consider "0 < x" | "x \<le> 0" "0 \<le> y" | "y < 0" by linarith
  then show ?thesis
  proof cases
    case 1
    then show ?thesis using assms by (rule round_double_mono_pos)
  next
    case 2
    have "round_double x \<le> 0"
      using round_double_nonneg [of "- x"] 2(1) by (simp add: round_double_minus)
    moreover have "0 \<le> round_double y" using 2(2) by (rule round_double_nonneg)
    ultimately show ?thesis by simp
  next
    case 3
    have "round_double (- y) \<le> round_double (- x)"
      using 3 assms by (intro round_double_mono_pos) simp_all
    then show ?thesis by (simp add: round_double_minus)
  qed
qed

lemma rhe_eqI:
  assumes "\<bar>r - of_int n\<bar> < 1 / 2"
  shows "round_half_even r = n"
proof -
  have "of_int (round_half_even r) \<le> r + 1 / 2" "r - 1 / 2 \<le> of_int (round_half_even r)"
    by (rule rhe_bounds)+
  then have "\<bar>real_of_int (round_half_even r) - real_of_int n\<bar> < 1"
    using assms by linarith
  then have "\<bar>round_half_even r - n\<bar> < 1"
    by (metis of_int_abs of_int_diff of_int_less_1_iff)
  then show ?thesis by linarith
qed

lemma rhe_tie: "round_half_even (of_int f + 1 / 2) = (if even f then f else f + 1)"
proof -
  have "\<lfloor>real_of_int f + 1 / 2\<rfloor> = f" by linarith
  then show ?thesis by (simp add: round_half_even_def)
qed

lemma round_double_exact:
  assumes "exponent x = e" and "x = of_int m * 2 powr (of_int e - 52)"
  shows "round_double x = x"
proof -
  have "x / 2 powr (of_int e - 52) = of_int m" using assms(2) by simp
  then show ?thesis using assms by (simp add: round_double_alt)
qed

lemma round_double_eqI:
  assumes "exponent x = e" and "u = 2 powr (of_int e - 52)"
    and "\<bar>x / u - of_int n\<bar> < 1 / 2" and "x \<noteq> 0"
  shows "round_double x = of_int n * u"
  using assms rhe_eqI [of "x / u" n] by (simp add: round_double_alt)

lemma round_double_tie:
  assumes "exponent x = e" and "u = 2 powr (of_int e - 52)"
    and "x / u = of_int f + 1 / 2" and "x \<noteq> 0"
  shows "round_double x = of_int (if even f then f else f + 1) * u"
  using assms rhe_tie [of f] by (simp add: round_double_alt)





lemma round_double_of_int:
  assumes "\<bar>n\<bar> < 2 ^ 53"
  shows "round_double (of_int n) = of_int n"
proof (cases "n = 0")
  case True
  then show ?thesis by simp
next
  case False
  let ?e = "exponent (of_int n)"
  have "1 \<le> \<bar>real_of_int n\<bar>" using False by (metis of_int_1_le_iff of_int_abs abs_ge_zero abs_zero linorder_not_le int_one_le_iff_zero_less zero_less_abs_iff)
  have up: "\<bar>real_of_int n\<bar> < 2 powr 53"
  proof -
    have "real_of_int \<bar>n\<bar> < real_of_int (2 ^ 53)" using assms by (simp only: of_int_less_iff)
    then show ?thesis by simp
  qed
  have "?e \<le> 52"
  proof (rule ccontr)
    assume "\<not> ?e \<le> 52"
    then have "53 \<le> ?e" by simp
    then have "(2::real) powr 53 \<le> 2 powr of_int ?e" by (intro powr_mono) simp_all
    moreover have "2 powr of_int ?e \<le> \<bar>real_of_int n\<bar>"
      using False \<open>53 \<le> ?e\<close> by (intro exponent_lower) simp_all
    ultimately show False using up by linarith
  qed
  moreover have "- 1022 \<le> ?e" by (rule exponent_ge)
  ultimately have "real (nat (52 - ?e)) = 52 - of_int ?e" by simp
  then have "(2::real) powr 0 = 2 ^ nat (52 - ?e) * 2 powr (of_int ?e - 52)"
    using powr_split [of 0 "nat (52 - ?e)"] by simp
  then have "real_of_int n = of_int (n * 2 ^ nat (52 - ?e)) * 2 powr (of_int ?e - 52)"
    by simp
  then show ?thesis by (rule round_double_exact [OF refl])
qed

lemma round_double_small:
  assumes "2 ^ 52 \<le> \<bar>x\<bar> * 2 ^ k" and "\<bar>x\<bar> * 2 ^ k < 2 ^ 53" and "k \<le> 1074"
    and "\<bar>x * 2 ^ k - of_int n\<bar> < 1 / 2"
  shows "round_double x = of_int n / 2 ^ k"
proof -
  let ?e = "52 - int k"
  have u: "(2::real) powr (of_int ?e - 52) = 1 / 2 ^ k"
    using powr_neg_nat [of k] by simp
  have lo: "(2::real) powr of_int ?e = 2 ^ 52 / 2 ^ k"
    using powr_split [of "of_int ?e" 52] u by simp
  have hi: "(2::real) powr (of_int ?e + 1) = 2 ^ 53 / 2 ^ k"
    using powr_split [of "of_int ?e + 1" 53] u by simp
  have e: "exponent x = ?e"
  proof (rule exponent_eqI)
    show "2 powr of_int ?e \<le> \<bar>x\<bar>" using assms(1) unfolding lo by (simp add: divide_le_eq)
    show "\<bar>x\<bar> < 2 powr (of_int ?e + 1)" using assms(2) unfolding hi by (simp add: less_divide_eq)
    show "- 1022 \<le> ?e" using assms(3) by simp
  qed
  have x: "x \<noteq> 0" using assms(1) by auto
  have "round_double x = of_int n * (1 / 2 ^ k)"
  proof (rule round_double_eqI [OF e _ _ x])
    show "1 / 2 ^ k = (2::real) powr (of_int ?e - 52)" using u by simp
    show "\<bar>x / (1 / 2 ^ k) - of_int n\<bar> < 1 / 2" using assms(4) by simp
  qed
  then show ?thesis by simp
qed

lemma round_double_small_tie:
  assumes "2 ^ 52 \<le> \<bar>x\<bar> * 2 ^ k" and "\<bar>x\<bar> * 2 ^ k < 2 ^ 53" and "k \<le> 1074"
    and "x * 2 ^ k = of_int f + 1 / 2"
  shows "round_double x = of_int (if even f then f else f + 1) / 2 ^ k"
proof -
  let ?e = "52 - int k"
  have u: "(2::real) powr (of_int ?e - 52) = 1 / 2 ^ k"
    using powr_neg_nat [of k] by simp
  have lo: "(2::real) powr of_int ?e = 2 ^ 52 / 2 ^ k"
    using powr_split [of "of_int ?e" 52] u by simp
  have hi: "(2::real) powr (of_int ?e + 1) = 2 ^ 53 / 2 ^ k"
    using powr_split [of "of_int ?e + 1" 53] u by simp
  have e: "exponent x = ?e"
  proof (rule exponent_eqI)
    show "2 powr of_int ?e \<le> \<bar>x\<bar>" using assms(1) unfolding lo by (simp add: divide_le_eq)
    show "\<bar>x\<bar> < 2 powr (of_int ?e + 1)" using assms(2) unfolding hi by (simp add: less_divide_eq)
    show "- 1022 \<le> ?e" using assms(3) by simp
  qed
  have x: "x \<noteq> 0" using assms(1) by auto
  have "round_double x = of_int (if even f then f else f + 1) * (1 / 2 ^ k)"
  proof (rule round_double_tie [OF e _ _ x])
    show "1 / 2 ^ k = (2::real) powr (of_int ?e - 52)" using u by simp
    show "x / (1 / 2 ^ k) = of_int f + 1 / 2" using assms(4) by simp
  qed
  then show ?thesis by simp
qed

lemma round_double_powr:
  assumes "- 1022 \<le> k"
  shows "round_double (2 powr of_int k) = 2 powr of_int k"
proof -
  have e: "exponent (2 powr of_int k) = k"
    by (rule exponent_eqI) (simp_all add: assms)
  have "(2::real) powr of_int k = of_int (2 ^ 52) * 2 powr (of_int k - 52)"
    using powr_split [of "of_int k" 52] by simp
  then show ?thesis by (rule round_double_exact [OF e])
qed

lemma round_double_pow: "round_double (2 ^ n) = 2 ^ n"
  using round_double_powr [of "int n"] by (simp add: powr_realpow)

lemma round_double_numeral:
  "numeral n < (2::int) ^ 53 \<Longrightarrow> round_double (numeral n) = numeral n"
  using round_double_of_int [of "numeral n"] by simp


lemma round_double_half: "round_double (1 / 2) = 1 / 2"
  using round_double_powr [of "- 1"] by (simp add: powr_minus inverse_eq_divide)


lemma round_double_abs: "round_double \<bar>x\<bar> = \<bar>round_double x\<bar>"
proof (cases "0 \<le> x")
  case True
  then show ?thesis using round_double_nonneg [of x] by simp
next
  case False
  then have "0 \<le> round_double (- x)" by (intro round_double_nonneg) simp
  then show ?thesis using False by (simp add: round_double_minus)
qed

lemma threshold_pos: "0 < overflow_threshold"
  by (simp add: overflow_threshold_def)


lemma round_double_threshold: "round_double overflow_threshold = overflow_threshold"
  unfolding overflow_threshold_def by (rule round_double_pow)



lemma fl_Num:
  assumes "\<bar>round_double x\<bar> < overflow_threshold"
  shows "fl x = Num (round_double x)"
  using assms by (auto simp: fl_def Let_def)


lemma fl_0: "fl 0 = Num 0"
  using threshold_pos by (simp add: fl_def)

lemma fl_overflow: "overflow_threshold \<le> x \<Longrightarrow> fl x = PosInfinity"
  using round_double_mono [of overflow_threshold x]
  by (simp add: fl_def round_double_threshold)





lemma fl_is_double: "is_double x \<Longrightarrow> fl x = Num x"
  by (auto simp: is_double_def fl_def Let_def)

lemma threshold_large: "(2::real) ^ 53 < overflow_threshold"
  by (simp add: overflow_threshold_def)

lemma fl_moderate:
  assumes "\<bar>x\<bar> \<le> 2 ^ 53"
  shows "fl x = Num (round_double x)"
proof -
  have "\<bar>round_double x\<bar> \<le> 2 ^ 53"
    using round_double_mono [OF assms] by (simp only: round_double_pow round_double_abs)
  then show ?thesis using threshold_large by (intro fl_Num) linarith
qed

lemma small_bound:
  fixes x :: real
  assumes "\<bar>x\<bar> * 2 ^ k < 2 ^ 53"
  shows "\<bar>x\<bar> \<le> 2 ^ 53"
proof -
  have "\<bar>x\<bar> * 1 \<le> \<bar>x\<bar> * 2 ^ k" by (intro mult_left_mono) simp_all
  then show ?thesis using assms by simp
qed

lemma fl_small:
  assumes "2 ^ 52 \<le> \<bar>x\<bar> * 2 ^ k" and "\<bar>x\<bar> * 2 ^ k < 2 ^ 53" and "k \<le> 1074"
    and "\<bar>x * 2 ^ k - of_int n\<bar> < 1 / 2"
  shows "fl x = Num (of_int n / 2 ^ k)"
  using fl_moderate [OF small_bound [OF assms(2)]] round_double_small [OF assms] by simp

lemma fl_small_tie:
  assumes "2 ^ 52 \<le> \<bar>x\<bar> * 2 ^ k" and "\<bar>x\<bar> * 2 ^ k < 2 ^ 53" and "k \<le> 1074"
    and "x * 2 ^ k = of_int f + 1 / 2"
  shows "fl x = Num (of_int (if even f then f else f + 1) / 2 ^ k)"
  using fl_moderate [OF small_bound [OF assms(2)]] round_double_small_tie [OF assms] by simp

lemma is_double_small:
  assumes "2 ^ 52 \<le> \<bar>x\<bar> * 2 ^ k" and "\<bar>x\<bar> * 2 ^ k < 2 ^ 53" and "k \<le> 1074"
    and "x * 2 ^ k = of_int n"
  shows "is_double x"
proof -
  have "round_double x = of_int n / 2 ^ k"
    using assms by (intro round_double_small) simp_all
  also have "\<dots> = x" using assms(4) [symmetric] by simp
  finally have "round_double x = x" .
  moreover have "\<bar>x\<bar> < overflow_threshold"
    using small_bound [OF assms(2)] threshold_large by linarith
  ultimately show ?thesis by (simp add: is_double_def)
qed

lemma is_double_of_int: "\<bar>n\<bar> < 2 ^ 53 \<Longrightarrow> is_double (of_int n)"
proof -
  assume n: "\<bar>n\<bar> < 2 ^ 53"
  then have "real_of_int \<bar>n\<bar> < real_of_int (2 ^ 53)" by (simp only: of_int_less_iff)
  then have "\<bar>real_of_int n\<bar> < overflow_threshold" using threshold_large by simp
  then show ?thesis using round_double_of_int [OF n] by (simp add: is_double_def)
qed



lemma is_double_1: "is_double 1"
  using is_double_of_int [of 1] by simp

lemma is_double_half: "is_double (1 / 2)"
  using is_double_small [of "1 / 2" 53 "2 ^ 52"] by simp


lemma fl_of_int: "\<bar>n\<bar> < 2 ^ 53 \<Longrightarrow> fl (of_int n) = Num (of_int n)"
  by (rule fl_is_double [OF is_double_of_int])


lemma fl_1: "fl 1 = Num 1"
  by (rule fl_is_double [OF is_double_1])

lemma round_double_small_eq:
  assumes "2 ^ 52 \<le> \<bar>x\<bar> * 2 ^ k" and "\<bar>x\<bar> * 2 ^ k < 2 ^ 53" and "k \<le> 1074"
  shows "round_double x = of_int (round_half_even (x * 2 ^ k)) / 2 ^ k"
proof -
  let ?e = "52 - int k"
  have u: "(2::real) powr (of_int ?e - 52) = 1 / 2 ^ k"
    using powr_neg_nat [of k] by simp
  have lo: "(2::real) powr of_int ?e = 2 ^ 52 / 2 ^ k"
    using powr_split [of "of_int ?e" 52] u by simp
  have hi: "(2::real) powr (of_int ?e + 1) = 2 ^ 53 / 2 ^ k"
    using powr_split [of "of_int ?e + 1" 53] u by simp
  have e: "exponent x = ?e"
  proof (rule exponent_eqI)
    show "2 powr of_int ?e \<le> \<bar>x\<bar>" using assms(1) unfolding lo by (simp add: divide_le_eq)
    show "\<bar>x\<bar> < 2 powr (of_int ?e + 1)" using assms(2) unfolding hi by (simp add: less_divide_eq)
    show "- 1022 \<le> ?e" using assms(3) by simp
  qed
  have x: "x \<noteq> 0" using assms(1) by auto
  show ?thesis using x by (simp add: round_double_alt e powr_neg_nat)
qed

lemma double_below_1:
  assumes "is_double p" and "p < 1"
  shows "p \<le> 1 - 1 / 2 ^ 53"
proof (cases "1 / 2 \<le> p")
  case False
  then show ?thesis by simp
next
  case True
  have r: "2 ^ 52 \<le> \<bar>p\<bar> * 2 ^ 53" "\<bar>p\<bar> * 2 ^ 53 < 2 ^ 53"
    using True assms(2) by simp_all
  define m where "m = round_half_even (p * 2 ^ 53)"
  have "round_double p = of_int m / 2 ^ 53"
    unfolding m_def using r by (intro round_double_small_eq) simp_all
  then have p: "p = of_int m / 2 ^ 53" using assms(1) by (simp add: is_double_def)
  then have "real_of_int m < real_of_int (2 ^ 53)" using assms(2) by simp
  then have "m < 2 ^ 53" by (simp only: of_int_less_iff)
  then have "m \<le> 2 ^ 53 - 1" by simp
  then have "real_of_int m \<le> real_of_int (2 ^ 53 - 1)" by (simp only: of_int_le_iff)
  then show ?thesis by (simp add: p divide_le_eq)
qed

lemma product_below:
  fixes n :: nat
  assumes n: "0 < n" "n < 2 ^ 53" and p: "is_double p" "0 \<le> p" "p < 1"
  shows "0 \<le> round_double (real n * p) \<and> round_double (real n * p) < real n"
proof
  let ?y = "real n * p"
  show "0 \<le> round_double ?y" using p(2) by (intro round_double_nonneg) simp
  obtain E where E: "2 ^ E \<le> n" "n < 2 ^ (E + 1)"
    using ex_power_ivl1 [of 2 n] n(1) by auto
  have "(2::nat) ^ E < 2 ^ 53" using E(1) n(2) by linarith
  then have "\<not> 53 \<le> E" using power_increasing [of 53 E "2::nat"] by linarith
  then have E52: "E \<le> 52" by simp
  define k where "k = 52 - E"
  have kE: "E + k = 52" using E52 by (simp add: k_def)
  have pw: "(2::real) ^ E * 2 ^ k = 2 ^ 52"
    unfolding power_add [symmetric] kE by simp
  have rE: "(2::real) ^ E \<le> real n" "real n < 2 ^ (E + 1)"
  proof -
    have "real (2 ^ E) \<le> real n" using E(1) by (simp only: of_nat_le_iff)
    then show "(2::real) ^ E \<le> real n" by simp
    have "real n < real (2 ^ (E + 1))" using E(2) by (simp only: of_nat_less_iff)
    then show "real n < 2 ^ (E + 1)" by simp
  qed
  have ylt: "?y < real n" using n(1) p(3) by simp
  have yle: "?y \<le> real n - real n / 2 ^ 53"
  proof -
    have "real n * p \<le> real n * (1 - 1 / 2 ^ 53)"
      using double_below_1 [OF p(1,3)] by (intro mult_left_mono) simp_all
    then show ?thesis by (simp add: algebra_simps)
  qed
  show "round_double ?y < real n"
  proof (cases "n = 2 ^ E")
    case True
    then have nE: "real n = 2 ^ E" by simp
    let ?d = "(2::real) ^ E - 2 ^ E / 2 ^ 53"
    have d2: "?d * 2 ^ (k + 1) = 2 ^ 53 - 1"
    proof -
      have "?d * 2 ^ (k + 1) = 2 * (2 ^ E * 2 ^ k) - 2 * (2 ^ E * 2 ^ k) / 2 ^ 53"
        by (simp add: algebra_simps)
      then show ?thesis unfolding pw by simp
    qed
    have dpos: "0 \<le> ?d"
    proof -
      have "(2::real) ^ E / 2 ^ 53 \<le> 2 ^ E / 1" by (intro divide_left_mono) simp_all
      then show ?thesis by simp
    qed
    have "round_double ?d = of_int (2 ^ 53 - 1) / 2 ^ (k + 1)"
    proof (rule round_double_small)
      show "2 ^ 52 \<le> \<bar>?d\<bar> * 2 ^ (k + 1)" using dpos d2 by (simp only: abs_of_nonneg) simp
      show "\<bar>?d\<bar> * 2 ^ (k + 1) < 2 ^ 53" using dpos d2 by (simp only: abs_of_nonneg)
      show "k + 1 \<le> 1074" by (simp add: k_def)
      show "\<bar>?d * 2 ^ (k + 1) - of_int (2 ^ 53 - 1)\<bar> < 1 / 2" unfolding d2 by simp
    qed
    also have "\<dots> = ?d"
    proof -
      have "real_of_int (2 ^ 53 - 1) = ?d * 2 ^ (k + 1)" unfolding d2 by simp
      then show ?thesis by (simp only: nonzero_mult_div_cancel_right power_not_zero
            zero_neq_numeral not_False_eq_True)
    qed
    finally have "round_double ?d = ?d" .
    moreover have "round_double ?y \<le> round_double ?d"
      using yle unfolding nE by (rule round_double_mono)
    moreover have "?d < 2 ^ E" by simp
    ultimately show ?thesis unfolding nE by linarith
  next
    case False
    then have "2 ^ E < n" using E(1) by simp
    then have "real (2 ^ E) < real n" by (simp only: of_nat_less_iff)
    then have gt: "(2::real) ^ E < real n" by simp
    show ?thesis
    proof (cases "?y < 2 ^ E")
      case True
      then have "round_double ?y \<le> round_double (2 ^ E)"
        by (intro round_double_mono) simp
      then have "round_double ?y \<le> 2 ^ E" by (simp only: round_double_pow)
      then show ?thesis using gt by linarith
    next
      case False
      then have yge: "2 ^ E \<le> ?y" by simp
      then have ypos: "0 \<le> ?y" using zero_le_power [of "2::real" E] by linarith
      have r1: "2 ^ 52 \<le> \<bar>?y\<bar> * 2 ^ k"
      proof -
        have "2 ^ E * 2 ^ k \<le> ?y * 2 ^ k" using yge by (intro mult_right_mono) simp_all
        then show ?thesis using ypos unfolding pw by (simp only: abs_of_nonneg)
      qed
      have r2: "\<bar>?y\<bar> * 2 ^ k < 2 ^ 53"
      proof -
        have "?y * 2 ^ k < 2 ^ (E + 1) * 2 ^ k"
          using ylt rE(2) by (intro mult_strict_right_mono) simp_all
        also have "\<dots> = 2 * (2 ^ E * 2 ^ k)" by simp
        finally show ?thesis using ypos unfolding pw by (simp only: abs_of_nonneg) simp
      qed
      have rd: "round_double ?y = of_int (round_half_even (?y * 2 ^ k)) / 2 ^ k"
        using r1 r2 by (intro round_double_small_eq) (simp_all add: k_def)
      let ?N = "int n * 2 ^ k"
      have half: "1 / 2 < real n * 2 ^ k / 2 ^ 53"
      proof -
        have "2 ^ E * 2 ^ k < real n * 2 ^ k" using gt by (intro mult_strict_right_mono) simp_all
        then show ?thesis unfolding pw by simp
      qed
      have "?y * 2 ^ k \<le> (real n - real n / 2 ^ 53) * 2 ^ k"
        using yle by (intro mult_right_mono) simp_all
      also have "\<dots> = real_of_int ?N - real n * 2 ^ k / 2 ^ 53"
        by (simp add: algebra_simps)
      finally have "?y * 2 ^ k + 1 / 2 < real_of_int ?N" using half by linarith
      then have "real_of_int (round_half_even (?y * 2 ^ k)) < real_of_int ?N"
        using rhe_bounds(1) [of "?y * 2 ^ k"] by linarith
      then have "of_int (round_half_even (?y * 2 ^ k)) / 2 ^ k < real_of_int ?N / 2 ^ k"
        by (rule divide_strict_right_mono) simp
      then show ?thesis unfolding rd by simp
    qed
  qed
qed


section \<open>Properties of the metrics\<close>

lemma LN2_pos: "0 < LN2"
  by (simp add: LN2_def)

lemma computeSurprisal_Num: "computeSurprisal (Num l) = fl (- l / LN2)"
  using LN2_pos by (simp add: computeSurprisal_def)



lemma js_le_refl: "v \<noteq> NaN \<Longrightarrow> js_le v v"
  by (cases v) (simp_all add: js_le_def)





























lemma computePercentile_index:
  "computePercentile vs p = js_index (sort vs) (Math_floor (fl (real (length vs) * p)))"
  by (simp add: computePercentile_def)

text \<open>
  C7: \<open>computePercentile\<close> returns the element at index \<open>Math.floor(n * p)\<close> of the ascending
  sorted arrangement of the values, where \<open>n * p\<close> is the product of the two doubles, rounded
  (\<open>undefined\<close> when that is not a position), and \<open>computePercentile([5,1,4,2,3], 0.4)\<close> is 3:
  the double 0.4 is \<open>3602879701896397 / 2 ^ 53\<close> and its product with 5 rounds to 2.
\<close>

theorem computePercentile_nearest_rank:
  "(sorted s \<and> mset s = mset vs \<and> js_mul (Num (real (length vs))) (Num p) = Num y \<longrightarrow>
      computePercentile vs p =
        (if 0 \<le> \<lfloor>y\<rfloor> \<and> \<lfloor>y\<rfloor> < int (length vs) then Some (s ! nat \<lfloor>y\<rfloor>) else None)) \<and>
   computePercentile [5, 1, 4, 2, 3] (3602879701896397 / 2 ^ 53) = Some 3"
proof (intro conjI impI)
  assume a: "sorted s \<and> mset s = mset vs \<and> js_mul (Num (real (length vs))) (Num p) = Num y"
  then have "sort vs = s" by (metis properties_for_sort)
  moreover have "length s = length vs" using a by (metis mset_eq_length)
  moreover have "fl (real (length vs) * p) = Num y" using a by simp
  moreover have "(real_of_int \<lfloor>y\<rfloor> < real (length vs)) = (\<lfloor>y\<rfloor> < int (length vs))"
    by (metis of_int_less_iff of_int_of_nat_eq)
  ultimately show "computePercentile vs p =
        (if 0 \<le> \<lfloor>y\<rfloor> \<and> \<lfloor>y\<rfloor> < int (length vs) then Some (s ! nat \<lfloor>y\<rfloor>) else None)"
    by (simp add: computePercentile_index)
next
  have "fl (5 * (3602879701896397 / 2 ^ 53)) = Num 2"
    using fl_small [of "5 * (3602879701896397 / 2 ^ 53)" 51 4503599627370496] by simp
  then show "computePercentile [5, 1, 4, 2, 3] (3602879701896397 / 2 ^ 53) = Some 3"
    by (simp add: computePercentile_index)
qed

lemma third_product: "js_mul (Num (real (length [3, 1, 2 :: real]))) (Num (6004799503160661 / 2 ^ 54)) = Num 1"
  using fl_small_tie [of "3 * (6004799503160661 / 2 ^ 54)" 53 9007199254740991] by simp

text \<open>
  The index is the floor of the rounded product, not of the exact one: for three values
  and the double nearest to 1/3 the product rounds to 1 (the exact product is below 1),
  and for twenty values and the double 0.95 it rounds to 19 (the exact product is below
  19).
\<close>

lemma third_exact_floor: "\<lfloor>3 * (6004799503160661 / 2 ^ 54 :: real)\<rfloor> = 0"
  by (intro floor_unique) simp_all

lemma percentile_95_example:
  "js_mul (Num 20) (Num (4278419646001971 / 2 ^ 52)) = Num 19 \<and>
   \<lfloor>20 * (4278419646001971 / 2 ^ 52 :: real)\<rfloor> = 18"
proof -
  have "fl (20 * (4278419646001971 / 2 ^ 52)) = Num 19"
    using fl_small [of "20 * (4278419646001971 / 2 ^ 52)" 48 5348024557502464] by simp
  moreover have "\<lfloor>20 * (4278419646001971 / 2 ^ 52 :: real)\<rfloor> = 18"
    by (intro floor_unique) simp_all
  ultimately show ?thesis by simp
qed

theorem computePercentile_nearest_rank_witness:
  "sorted [1, 2, 3 :: real] \<and> mset [1, 2, 3 :: real] = mset [3, 1, 2] \<and>
   js_mul (Num (real (length [3, 1, 2 :: real]))) (Num (6004799503160661 / 2 ^ 54)) = Num 1 \<and>
   computePercentile [3, 1, 2] (6004799503160661 / 2 ^ 54) = Some 2"
proof -
  have m: "mset [1, 2, 3 :: real] = mset [3, 1, 2]" by simp
  have s: "sorted [1, 2, 3 :: real]" by simp
  have "computePercentile [3, 1, 2] (6004799503160661 / 2 ^ 54) = Some 2"
    using computePercentile_nearest_rank [of "[1, 2, 3]" "[3, 1, 2]" "6004799503160661 / 2 ^ 54" 1]
      m s third_product by simp
  then show ?thesis using m s third_product by blast
qed

text \<open>
  C10: for a non-empty sequence and a double \<open>p\<close> with \<open>0 \<le> p < 1\<close> the result is an element
  of the input: the rounded product \<open>n * p\<close> stays below \<open>n\<close>. At \<open>p = 1\<close> the index is the
  length of the sequence and the result is \<open>undefined\<close>. The length of an array is below
  \<open>2 ^ 32\<close>; the bound \<open>2 ^ 53\<close> is all that is used.
\<close>

theorem computePercentile_in_bounds:
  "(vs \<noteq> [] \<and> length vs < 2 ^ 53 \<and> is_double p \<and> 0 \<le> p \<and> p < 1 \<longrightarrow>
      (\<exists>v. computePercentile vs p = Some v \<and> v \<in> set vs)) \<and>
   (length vs < 2 ^ 53 \<longrightarrow> computePercentile vs 1 = None)"
proof (intro conjI impI)
  assume a: "vs \<noteq> [] \<and> length vs < 2 ^ 53 \<and> is_double p \<and> 0 \<le> p \<and> p < 1"
  let ?n = "length vs"
  let ?r = "round_double (real ?n * p)"
  have r: "0 \<le> ?r" "?r < real ?n"
    using product_below [of ?n p] a by simp_all
  have "real ?n < real (2 ^ 53)" using a by (simp only: of_nat_less_iff)
  then have "\<bar>?r\<bar> < overflow_threshold" using r threshold_large by simp
  then have f: "fl (real ?n * p) = Num ?r" by (rule fl_Num)
  have lo: "0 \<le> \<lfloor>?r\<rfloor>" using r(1) by simp
  have hi: "\<lfloor>?r\<rfloor> < int ?n" using r(2) by linarith
  have hi': "real_of_int \<lfloor>?r\<rfloor> < real ?n" using r(2) by linarith
  have "nat \<lfloor>?r\<rfloor> < ?n" using lo hi by linarith
  then have "nat \<lfloor>?r\<rfloor> < length (sort vs)" by simp
  then have "sort vs ! nat \<lfloor>?r\<rfloor> \<in> set (sort vs)" by (rule nth_mem)
  then have "sort vs ! nat \<lfloor>?r\<rfloor> \<in> set vs" by simp
  then show "\<exists>v. computePercentile vs p = Some v \<and> v \<in> set vs"
    using lo hi' by (simp add: computePercentile_index f)
next
  assume "length vs < 2 ^ 53"
  then have "\<bar>int (length vs)\<bar> < 2 ^ 53" by simp
  then have "fl (of_int (int (length vs))) = Num (of_int (int (length vs)))" by (rule fl_of_int)
  then show "computePercentile vs 1 = None"
    by (simp add: computePercentile_index)
qed

theorem computePercentile_in_bounds_witness:
  "[7, 3 :: real] \<noteq> [] \<and> length [7, 3 :: real] < 2 ^ 53 \<and> is_double (1 / 2) \<and>
   (0::real) \<le> 1 / 2 \<and> (1 / 2 :: real) < 1 \<and>
   (\<exists>v. computePercentile [7, 3] (1 / 2) = Some v \<and> v \<in> set [7, 3]) \<and>
   computePercentile [7, 3] 1 = None"
  using computePercentile_in_bounds [of "[7, 3]" "1 / 2"] is_double_half by simp

lemma LN2_bounds: "2 / 3 \<le> LN2" "LN2 \<le> 3 / 4"
  by (simp_all add: LN2_def)



















text \<open>
  When every logprob is 0 the largest surprisal is 0 and the score is \<open>0 / 0\<close>: for a single
  token of probability 1 the \<open>confidenceScore\<close> is \<open>NaN\<close>.
\<close>

lemma confidenceScore_NaN_example:
  "computeTokenMetrics Math_exp [''a''] [Num 0] [Num (- 1)] Local Confidence None =
     Inr [\<lparr> token = ''a'', confidence = Math_exp (Num 0),
            logprob = Some (Num 0), logprob2 = Some (Num (- 1)),
            surprisal = Some (Num 0), confidenceScore = Some NaN,
            gap = Some (Num 1),
            normalizedSurprisal = Some (Num (1 / 2)), normalizedConfidence = Some NaN,
            normalizedGap = Some (Num (1 / 2)) \<rparr>]"
  using LN2_pos
  by (simp add: computeTokenMetrics_def computeSurprisal_def computeConfidence_def
      computeGap_def Math_max_def Math_min_def normalizeLocal_def buildResult_def js_nth_def
      Let_def fl_0 fl_1)

text \<open>
  A logprob below about \<open>-1.246e308\<close> has the surprisal \<open>Infinity\<close>; as the largest surprisal
  of its response it gives the score \<open>1 - Infinity / Infinity\<close>, which is \<open>NaN\<close>.
\<close>

lemma confidenceScore_overflow_example:
  "computeSurprisal (Num (- (3 * 2 ^ 1022))) = PosInfinity \<and>
   computeConfidence PosInfinity PosInfinity = NaN"
proof -
  have h: "(2::real) ^ 1022 = overflow_threshold / 4"
    by (simp add: overflow_threshold_def)
  have "overflow_threshold * LN2 \<le> overflow_threshold * (3 / 4)"
    using LN2_bounds(2) threshold_pos by (intro mult_left_mono) simp_all
  then have "overflow_threshold \<le> (3 * (overflow_threshold / 4)) / LN2"
    using LN2_pos by (simp add: le_divide_eq)
  then have "fl ((3 * (overflow_threshold / 4)) / LN2) = PosInfinity" by (rule fl_overflow)
  then show ?thesis
    unfolding h by (simp add: computeSurprisal_Num computeConfidence_def)
qed



section \<open>Properties of the scatter plot\<close>

lemma keepPoint_conj:
  "keepPoint A f r d =
     (clusterPredicate A d \<and> correctnessPredicate f d \<and> confidencePredicate r d)"
  by (cases f; cases "avgConfidence d")
     (auto simp: keepPoint_def clusterPredicate_def correctnessPredicate_def
        confidencePredicate_def)

text \<open>
  C2 as stated fails for an absent \<open>isCorrect\<close>: with the choice "correct", a point of an
  active cluster, with confidence 0.9 inside the range [0, 1] and no \<open>isCorrect\<close>, passes
  the three predicates in the lenient reading and is still filtered out.
\<close>

theorem filter_absent_isCorrect_counterexample:
  "clusterPredicate {3}
     \<lparr> point_x = 0, point_y = 0, cluster = 3, point_id = 7, question = ''q'',
       isCorrect = None, avgConfidence = Some 0.9 \<rparr> \<and>
   correctnessPredicate_lenient FilterCorrect
     \<lparr> point_x = 0, point_y = 0, cluster = 3, point_id = 7, question = ''q'',
       isCorrect = None, avgConfidence = Some 0.9 \<rparr> \<and>
   confidencePredicate (0, 1)
     \<lparr> point_x = 0, point_y = 0, cluster = 3, point_id = 7, question = ''q'',
       isCorrect = None, avgConfidence = Some 0.9 \<rparr> \<and>
   filteredData
     [\<lparr> point_x = 0, point_y = 0, cluster = 3, point_id = 7, question = ''q'',
        isCorrect = None, avgConfidence = Some 0.9 \<rparr>]
     {3} FilterCorrect (0, 1) = []"
  by (simp add: clusterPredicate_def correctnessPredicate_lenient_def confidencePredicate_def
      filteredData_def keepPoint_def)

text \<open>
  C2, amended: the visible subset is the input filtered by the conjunction of the cluster,
  correctness and confidence-range predicates; a point without \<open>avgConfidence\<close> passes the
  confidence predicate for every range; a point without \<open>isCorrect\<close> passes the correctness
  predicate exactly when the choice is "all".
\<close>

theorem filteredData_conjunction:
  "filteredData points A f r =
     filter (\<lambda>d. clusterPredicate A d \<and> correctnessPredicate f d \<and> confidencePredicate r d)
       points \<and>
   (avgConfidence d = None \<longrightarrow> confidencePredicate r d) \<and>
   (isCorrect d = None \<longrightarrow> correctnessPredicate f d = (f = FilterAll))"
proof (intro conjI impI)
  have "keepPoint A f r =
          (\<lambda>d. clusterPredicate A d \<and> correctnessPredicate f d \<and> confidencePredicate r d)"
    by (rule ext) (rule keepPoint_conj)
  then show "filteredData points A f r =
     filter (\<lambda>d. clusterPredicate A d \<and> correctnessPredicate f d \<and> confidencePredicate r d)
       points"
    by (simp only: filteredData_def)
next
  assume "avgConfidence d = None"
  then show "confidencePredicate r d" by (simp add: confidencePredicate_def)
next
  assume "isCorrect d = None"
  then show "correctnessPredicate f d = (f = FilterAll)"
    by (cases f) (simp_all add: correctnessPredicate_def)
qed

theorem filteredData_conjunction_witness:
  "filteredData
     [\<lparr> point_x = 0, point_y = 0, cluster = 3, point_id = 1, question = ''q'',
        isCorrect = Some 0, avgConfidence = Some 0.9 \<rparr>,
      \<lparr> point_x = 1, point_y = 2, cluster = 3, point_id = 2, question = ''r'',
        isCorrect = Some 1, avgConfidence = None \<rparr>,
      \<lparr> point_x = 1, point_y = 2, cluster = 3, point_id = 3, question = ''s'',
        isCorrect = None, avgConfidence = None \<rparr>]
     {3} FilterCorrect (0, 1) =
     [\<lparr> point_x = 1, point_y = 2, cluster = 3, point_id = 2, question = ''r'',
        isCorrect = Some 1, avgConfidence = None \<rparr>] \<and>
   confidencePredicate (0, 1)
     \<lparr> point_x = 1, point_y = 2, cluster = 3, point_id = 3, question = ''s'',
       isCorrect = None, avgConfidence = None \<rparr> \<and>
   \<not> correctnessPredicate FilterCorrect
     \<lparr> point_x = 1, point_y = 2, cluster = 3, point_id = 3, question = ''s'',
       isCorrect = None, avgConfidence = None \<rparr>"
  using filteredData_conjunction
    [of "[\<lparr> point_x = 0, point_y = 0, cluster = 3, point_id = 1, question = ''q'',
        isCorrect = Some 0, avgConfidence = Some 0.9 \<rparr>,
      \<lparr> point_x = 1, point_y = 2, cluster = 3, point_id = 2, question = ''r'',
        isCorrect = Some 1, avgConfidence = None \<rparr>,
      \<lparr> point_x = 1, point_y = 2, cluster = 3, point_id = 3, question = ''s'',
        isCorrect = None, avgConfidence = None \<rparr>]" "{3}" FilterCorrect "(0, 1)"
       "\<lparr> point_x = 1, point_y = 2, cluster = 3, point_id = 3, question = ''s'',
       isCorrect = None, avgConfidence = None \<rparr>"]
  by (simp add: clusterPredicate_def correctnessPredicate_def confidencePredicate_def)

section \<open>Properties of the response store\<close>

lemma run_add: "run env (m + n) w = run env n (run env m w)"
  by (simp add: run_def funpow_add add.commute [of m n])

lemma run_Suc: "run env (Suc n) w = run env n (tick env w)"
  by (simp add: run_def funpow_swap1)

lemma run_0: "run env 0 w = w"
  by (simp add: run_def)

lemma run_fixed: "tick env w = w \<Longrightarrow> run env n w = w"
  by (induction n) (simp_all add: run_def)

lemma tick_returned:
  "tick env \<lparr> db = True, initPromise = Some Fulfilled, loadPromise = lp, idb = d,
             tasks = [LoadTask url cb (LoadReturned r)], fetched = fs, progress = ps \<rparr> =
   \<lparr> db = True, initPromise = Some Fulfilled, loadPromise = lp, idb = d,
             tasks = [LoadTask url cb (LoadReturned r)], fetched = fs, progress = ps \<rparr>"
  by (simp add: tick_def)

lemma run_from:
  assumes "run env m w = v" and "tick env v = v" and "m \<le> n"
  shows "run env n w = v"
proof -
  obtain j where "n = m + j" using assms(3) le_Suc_ex by blast
  then show ?thesis using assms(1,2) by (simp add: run_add run_fixed)
qed

lemma loadFromFile_fresh:
  "loadFromFile url cb (fresh d) =
     (0, \<lparr> db = False, initPromise = Some Pending, loadPromise = Some 0, idb = d,
           tasks = [LoadTask url cb LoadAwaitInit], fetched = [], progress = [] \<rparr>)"
  by (simp add: loadFromFile_def fresh_def init_def)

lemma cache_hit_run:
  assumes d: "version d = DB_VERSION" "objectStore d = Some s" "s \<noteq> []"
    and env: "open_error env = None" "count_error env = None"
  shows "run env 5 (snd (loadFromFile url cb (fresh d))) =
           \<lparr> db = True, initPromise = Some Fulfilled, loadPromise = Some 0, idb = d,
             tasks = [LoadTask url cb (LoadReturned (Inr ()))], fetched = [],
             progress = (if cb then [(0, length s, length s, Some True)] else []) \<rparr>"
proof -
  let ?W = "\<lambda>pc ps. \<lparr> db = True, initPromise = Some Fulfilled, loadPromise = Some 0, idb = d,
             tasks = [LoadTask url cb pc], fetched = [], progress = ps \<rparr>"
  have t1: "tick env \<lparr> db = False, initPromise = Some Pending, loadPromise = Some 0, idb = d,
             tasks = [LoadTask url cb LoadAwaitInit], fetched = [], progress = [] \<rparr> =
            ?W LoadAwaitInit []"
    by (simp add: tick_def open_done_def d env)
  have t2: "tick env (?W LoadAwaitInit []) = ?W (LoadAwaitCount CountAwaitInit) []"
    by (simp add: tick_def resume_def init_result_def init_def)
  have t3: "tick env (?W (LoadAwaitCount CountAwaitInit) []) =
            ?W (LoadAwaitCount CountAwaitRequest) []"
    by (simp add: tick_def resume_def init_result_def d)
  have t4: "tick env (?W (LoadAwaitCount CountAwaitRequest) []) =
            ?W (LoadAwaitCount (CountReturned (Inr (length s)))) []"
    by (simp add: tick_def resume_def d env)
  have t5: "tick env (?W (LoadAwaitCount (CountReturned (Inr (length s)))) []) =
            ?W (LoadReturned (Inr ())) (if cb then [(0, length s, length s, Some True)] else [])"
    using d(3) by (simp add: tick_def resume_def report_def)
  show ?thesis
    by (simp add: run_def eval_nat_numeral loadFromFile_fresh t1 t2 t3 t4 t5)
qed

text \<open>
  C5: when the store of the current version already holds \<open>N > 0\<close> records, a load on a
  fresh object returns successfully after reporting progress exactly once, as
  \<open>(N, N, fromCache = true)\<close> (nothing without a callback); it fetches nothing and leaves
  the database as it was.
\<close>

theorem load_cache_hit:
  assumes "version d = DB_VERSION" and "objectStore d = Some s" and "s \<noteq> []"
    and "open_error env = None" and "count_error env = None"
    and "5 \<le> n"
    and "w = run env n (snd (loadFromFile url cb (fresh d)))"
  shows "tasks w = [LoadTask url cb (LoadReturned (Inr ()))] \<and>
         progress w = (if cb then [(0, length s, length s, Some True)] else []) \<and>
         fetched w = [] \<and>
         idb w = d"
proof -
  have "w = \<lparr> db = True, initPromise = Some Fulfilled, loadPromise = Some 0, idb = d,
             tasks = [LoadTask url cb (LoadReturned (Inr ()))], fetched = [],
             progress = (if cb then [(0, length s, length s, Some True)] else []) \<rparr>"
    unfolding assms(7)
    by (rule run_from [OF cache_hit_run [OF assms(1-5)] tick_returned assms(6)])
  then show ?thesis by simp
qed

theorem load_cache_hit_witness:
  "tasks (run (sample_environment None []) 5
      (snd (loadFromFile ''/api/data'' True
         (fresh \<lparr> version = 2,
                  objectStore = Some [(1, sample_record 1 ''a''), (2, sample_record 2 ''b'')] \<rparr>)))) =
     [LoadTask ''/api/data'' True (LoadReturned (Inr ()))] \<and>
   progress (run (sample_environment None []) 5
      (snd (loadFromFile ''/api/data'' True
         (fresh \<lparr> version = 2,
                  objectStore = Some [(1, sample_record 1 ''a''), (2, sample_record 2 ''b'')] \<rparr>)))) =
     [(0, 2, 2, Some True)] \<and>
   fetched (run (sample_environment None []) 5
      (snd (loadFromFile ''/api/data'' True
         (fresh \<lparr> version = 2,
                  objectStore = Some [(1, sample_record 1 ''a''), (2, sample_record 2 ''b'')] \<rparr>)))) = []"
  using load_cache_hit
    [of "\<lparr> version = 2,
           objectStore = Some [(1, sample_record 1 ''a''), (2, sample_record 2 ''b'')] \<rparr>"
        "[(1, sample_record 1 ''a''), (2, sample_record 2 ''b'')]"
        "sample_environment None []" 5 _ "''/api/data''" True, OF _ _ _ _ _ _ refl]
  by (simp add: sample_environment_def DB_VERSION_def)

lemma put_keys: "fst ` set (put s item) = insert (rd_i item) (fst ` set s)"
  using dom_update [of "rd_i item" item s] by (simp add: put_def dom_map_of_conv_image_fst)

lemma put_distinct: "distinct (map fst s) \<Longrightarrow> distinct (map fst (put s item))"
  by (simp add: put_def distinct_update)

lemma foldl_put_keys:
  "distinct (map fst s) \<Longrightarrow>
   distinct (map fst (foldl put s items)) \<and>
   fst ` set (foldl put s items) = fst ` set s \<union> rd_i ` set items"
proof (induction items arbitrary: s)
  case Nil
  then show ?case by simp
next
  case (Cons item items)
  have "distinct (map fst (put s item))" using Cons.prems by (rule put_distinct)
  from Cons.IH [OF this] show ?case by (auto simp: put_keys)
qed

lemma length_foldl_put: "length (foldl put [] items) = card (rd_i ` set items)"
proof -
  have d: "distinct (map fst (foldl put [] items))"
    and k: "fst ` set (foldl put [] items) = rd_i ` set items"
    using foldl_put_keys [of "[]" items] by simp_all
  have "length (foldl put [] items) = length (map fst (foldl put [] items))" by simp
  also have "\<dots> = card (set (map fst (foldl put [] items)))"
    using d by (rule distinct_card [symmetric])
  also have "\<dots> = card (rd_i ` set items)" using k by simp
  finally show ?thesis .
qed

lemma load_step_loadPromise:
  "loadPromise (snd (load_step env k url cb w pc)) = loadPromise w"
  by (induction env k url cb w pc rule: load_step.induct)
     (auto simp: report_def init_def split: promise.splits sum.splits option.splits)

lemma tick_loadPromise: "loadPromise (tick env w) = loadPromise w"
proof -
  have o: "loadPromise (open_done env w) = loadPromise w"
    by (simp add: open_done_def split: option.splits)
  have l: "loadPromise (case load_step env k url cb w pc of
                           (pc', w') \<Rightarrow> w'\<lparr>tasks := (tasks w')[k := LoadTask url cb pc']\<rparr>) =
           loadPromise w" for k url cb pc
    using load_step_loadPromise [of env k url cb w pc]
    by (cases "load_step env k url cb w pc") simp
  have r: "loadPromise (resume env k w) = loadPromise w" for k
    by (simp add: resume_def l split: task.splits)
  show ?thesis
    by (simp add: tick_def o r split: list.splits)
qed

lemma run_loadPromise: "loadPromise (run env n w) = loadPromise w"
  by (induction n arbitrary: w) (simp_all add: run_0 run_Suc tick_loadPromise)

lemma loadFromFile_attach: "loadPromise w = Some p \<Longrightarrow> loadFromFile url cb w = (p, w)"
  by (simp add: loadFromFile_def)

lemma first_load_run:
  assumes d: "version d \<le> DB_VERSION"
      "(if version d < DB_VERSION then onupgradeneeded d else d) = d'"
      "objectStore d' = Some []"
    and env: "open_error env = None" "count_error env = None"
      "fetch_result env url = Inr resp" "ok resp" "json resp = Inr items"
      "transaction_error env = None"
  shows "run env 8 (snd (loadFromFile url cb (fresh d))) =
           \<lparr> db = True, initPromise = Some Fulfilled, loadPromise = Some 0,
             idb = d'\<lparr>objectStore := Some (foldl put [] items)\<rparr>,
             tasks = [LoadTask url cb (LoadReturned (Inr ()))], fetched = [url],
             progress = (if cb then write_reports 0 (length items) @
                                    [(0, length items, length items, None)] else []) \<rparr>"
proof -
  let ?W = "\<lambda>pc fs ps. \<lparr> db = True, initPromise = Some Fulfilled, loadPromise = Some 0, idb = d',
             tasks = [LoadTask url cb pc], fetched = fs, progress = ps \<rparr>"
  have t1: "tick env \<lparr> db = False, initPromise = Some Pending, loadPromise = Some 0, idb = d,
             tasks = [LoadTask url cb LoadAwaitInit], fetched = [], progress = [] \<rparr> =
            ?W LoadAwaitInit [] []"
    using d(1,2) by (cases "version d < DB_VERSION") (simp_all add: tick_def open_done_def env)
  have t2: "tick env (?W LoadAwaitInit [] []) = ?W (LoadAwaitCount CountAwaitInit) [] []"
    by (simp add: tick_def resume_def init_result_def init_def)
  have t3: "tick env (?W (LoadAwaitCount CountAwaitInit) [] []) =
            ?W (LoadAwaitCount CountAwaitRequest) [] []"
    by (simp add: tick_def resume_def init_result_def d)
  have t4: "tick env (?W (LoadAwaitCount CountAwaitRequest) [] []) =
            ?W (LoadAwaitCount (CountReturned (Inr 0))) [] []"
    by (simp add: tick_def resume_def d env)
  have t5: "tick env (?W (LoadAwaitCount (CountReturned (Inr 0))) [] []) =
            ?W LoadAwaitFetch [url] []"
    by (simp add: tick_def resume_def)
  have t6: "tick env (?W LoadAwaitFetch [url] []) = ?W (LoadAwaitJson resp) [url] []"
    by (simp add: tick_def resume_def env)
  have t7: "tick env (?W (LoadAwaitJson resp) [url] []) =
            ?W (LoadAwaitTransaction items) [url]
               (if cb then write_reports 0 (length items) else [])"
    by (simp add: tick_def resume_def env d report_def)
  have t8: "tick env (?W (LoadAwaitTransaction items) [url]
               (if cb then write_reports 0 (length items) else [])) =
           \<lparr> db = True, initPromise = Some Fulfilled, loadPromise = Some 0,
             idb = d'\<lparr>objectStore := Some (foldl put [] items)\<rparr>,
             tasks = [LoadTask url cb (LoadReturned (Inr ()))], fetched = [url],
             progress = (if cb then write_reports 0 (length items) @
                                    [(0, length items, length items, None)] else []) \<rparr>"
    by (simp add: tick_def resume_def env d report_def)
  show ?thesis
    by (simp add: run_def eval_nat_numeral loadFromFile_fresh t1 t2 t3 t4 t5 t6 t7 t8)
qed

lemma count_after_load:
  assumes "objectStore d = Some s" and "count_error env = None"
  shows "tasks (run env 2 (snd (count_db
           \<lparr> db = True, initPromise = Some Fulfilled, loadPromise = lp, idb = d,
             tasks = [LoadTask url cb (LoadReturned r)], fetched = fs, progress = ps \<rparr>))) =
         [LoadTask url cb (LoadReturned r), CountTask (CountReturned (Inr (length s)))]"
proof -
  let ?W = "\<lambda>pc. \<lparr> db = True, initPromise = Some Fulfilled, loadPromise = lp, idb = d,
             tasks = [LoadTask url cb (LoadReturned r), CountTask pc],
             fetched = fs, progress = ps \<rparr>"
  have c: "snd (count_db \<lparr> db = True, initPromise = Some Fulfilled, loadPromise = lp, idb = d,
             tasks = [LoadTask url cb (LoadReturned r)], fetched = fs, progress = ps \<rparr>) =
           ?W CountAwaitInit"
    by (simp add: count_db_def init_def)
  have u: "[0 ..< Suc (Suc 0)] = [0, Suc 0]" by (simp add: upt_rec)
  have t1: "tick env (?W CountAwaitInit) = ?W CountAwaitRequest"
    by (simp add: tick_def resume_def init_result_def assms u)
  have t2: "tick env (?W CountAwaitRequest) = ?W (CountReturned (Inr (length s)))"
    by (simp add: tick_def resume_def assms u)
  show ?thesis
    by (simp add: run_def eval_nat_numeral c t1 t2)
qed

text \<open>
  C4: whenever a \<open>loadPromise\<close> exists, \<open>loadFromFile\<close> returns that promise and changes
  nothing (no new call, no fetch, no write). So a second call made \<open>k\<close> ticks into a first
  load of an empty store attaches to it; the load that then completes has fetched once,
  and \<open>count()\<close> afterwards returns the number of distinct ids of the payload.
\<close>

theorem concurrent_load_attaches:
  assumes d: "version d \<le> DB_VERSION"
      "objectStore (if version d < DB_VERSION then onupgradeneeded d else d) = Some []"
    and env: "open_error env = None" "count_error env = None"
      "fetch_result env url = Inr resp" "ok resp" "json resp = Inr items"
      "transaction_error env = None"
    and w1: "w1 = snd (loadFromFile url cb (fresh d))"
    and w2: "w2 = run env k w1"
    and w3: "w3 = run env n (snd (loadFromFile url2 cb2 w2))"
    and n: "8 \<le> k + n"
  shows "(\<forall>w p. loadPromise w = Some p \<longrightarrow> loadFromFile url2 cb2 w = (p, w)) \<and>
         loadFromFile url2 cb2 w2 = (fst (loadFromFile url cb (fresh d)), w2) \<and>
         tasks w3 = [LoadTask url cb (LoadReturned (Inr ()))] \<and>
         fetched w3 = [url] \<and>
         objectStore (idb w3) = Some (foldl put [] items) \<and>
         tasks (run env 2 (snd (count_db w3))) ! 1 =
           CountTask (CountReturned (Inr (card (rd_i ` set items))))"
proof -
  define d' where "d' = (if version d < DB_VERSION then onupgradeneeded d else d)"
  define final where "final =
           \<lparr> db = True, initPromise = Some Fulfilled, loadPromise = Some 0,
             idb = d'\<lparr>objectStore := Some (foldl put [] items)\<rparr>,
             tasks = [LoadTask url cb (LoadReturned (Inr ()))], fetched = [url],
             progress = (if cb then write_reports 0 (length items) @
                                    [(0, length items, length items, None)] else []) \<rparr>"
  have attach: "\<forall>w p. loadPromise w = Some p \<longrightarrow> loadFromFile url2 cb2 w = (p, w)"
    by (simp add: loadFromFile_attach)
  have "loadPromise w1 = Some 0" by (simp add: w1 loadFromFile_fresh)
  then have "loadPromise w2 = Some 0" by (simp add: w2 run_loadPromise)
  then have second: "loadFromFile url2 cb2 w2 = (0, w2)" by (rule loadFromFile_attach)
  have run8: "run env 8 w1 = final"
    unfolding w1 final_def
    by (rule first_load_run [OF d(1) d'_def [symmetric] _ env]) (simp add: d'_def d(2))
  have "tick env final = final" unfolding final_def by (rule tick_returned)
  with run8 have "run env (k + n) w1 = final" using n by (rule run_from)
  moreover have "w3 = run env n w2" by (simp add: w3 second)
  ultimately have w3_final: "w3 = final" by (simp add: w2 run_add)
  have "tasks (run env 2 (snd (count_db final))) =
          [LoadTask url cb (LoadReturned (Inr ())),
           CountTask (CountReturned (Inr (length (foldl put [] items))))]"
    unfolding final_def by (rule count_after_load) (simp_all add: env)
  then have cnt: "tasks (run env 2 (snd (count_db w3))) ! 1 =
           CountTask (CountReturned (Inr (card (rd_i ` set items))))"
    by (simp add: w3_final length_foldl_put)
  show ?thesis
    using attach second cnt by (simp add: w3_final final_def loadFromFile_fresh)
qed

theorem concurrent_load_attaches_witness:
  "loadFromFile ''/api/data'' False
     (run (sample_environment None
             [sample_record 1 ''a'', sample_record 2 ''b'', sample_record 1 ''c'']) 3
        (snd (loadFromFile ''/api/data'' True (fresh \<lparr> version = 0, objectStore = None \<rparr>)))) =
   (0, run (sample_environment None
             [sample_record 1 ''a'', sample_record 2 ''b'', sample_record 1 ''c'']) 3
        (snd (loadFromFile ''/api/data'' True (fresh \<lparr> version = 0, objectStore = None \<rparr>)))) \<and>
   fetched
     (run (sample_environment None
             [sample_record 1 ''a'', sample_record 2 ''b'', sample_record 1 ''c'']) 6
        (snd (loadFromFile ''/api/data'' False
           (run (sample_environment None
                   [sample_record 1 ''a'', sample_record 2 ''b'', sample_record 1 ''c'']) 3
              (snd (loadFromFile ''/api/data'' True
                      (fresh \<lparr> version = 0, objectStore = None \<rparr>))))))) = [''/api/data''] \<and>
   tasks (run (sample_environment None
             [sample_record 1 ''a'', sample_record 2 ''b'', sample_record 1 ''c'']) 2
     (snd (count_db
     (run (sample_environment None
             [sample_record 1 ''a'', sample_record 2 ''b'', sample_record 1 ''c'']) 6
        (snd (loadFromFile ''/api/data'' False
           (run (sample_environment None
                   [sample_record 1 ''a'', sample_record 2 ''b'', sample_record 1 ''c'']) 3
              (snd (loadFromFile ''/api/data'' True
                      (fresh \<lparr> version = 0, objectStore = None \<rparr>)))))))))) ! 1 =
     CountTask (CountReturned (Inr 2))"
proof -
  let ?items = "[sample_record 1 ''a'', sample_record 2 ''b'', sample_record 1 ''c'']"
  let ?env = "sample_environment None ?items"
  let ?d = "\<lparr> version = 0, objectStore = None \<rparr>"
  have "{1::real, 2, 1} = {1, 2}" by auto
  then have c: "card (rd_i ` set ?items) = 2"
    by (simp add: sample_record_def)
  have z: "fst (loadFromFile ''/api/data'' True (fresh ?d)) = 0"
    by (simp add: loadFromFile_fresh)
  have d: "version ?d \<le> DB_VERSION"
    "objectStore (if version ?d < DB_VERSION then onupgradeneeded ?d else ?d) = Some []"
    by (simp_all add: DB_VERSION_def onupgradeneeded_def)
  have env: "open_error ?env = None" "count_error ?env = None"
    "fetch_result ?env ''/api/data'' = Inr \<lparr> ok = True, statusText = ''OK'', json = Inr ?items \<rparr>"
    "ok \<lparr> ok = True, statusText = ''OK'', json = Inr ?items \<rparr>"
    "json \<lparr> ok = True, statusText = ''OK'', json = Inr ?items \<rparr> = Inr ?items"
    "transaction_error ?env = None"
    by (simp_all add: sample_environment_def)
  have n: "(8::nat) \<le> 3 + 6" by simp
  note all = concurrent_load_attaches [OF d env refl refl refl n,
      where cb = True and ?url2.0 = "''/api/data''" and ?cb2.0 = False]
  note attached = all [THEN conjunct2, THEN conjunct1, unfolded z]
  note one_fetch = all [THEN conjunct2, THEN conjunct2, THEN conjunct2, THEN conjunct1]
  note counted = all [THEN conjunct2, THEN conjunct2, THEN conjunct2, THEN conjunct2,
      THEN conjunct2, unfolded c]
  from attached one_fetch counted show ?thesis by (intro conjI)
qed

lemma count_db_fresh:
  "snd (count_db (fresh d)) =
     \<lparr> db = False, initPromise = Some Pending, loadPromise = None, idb = d,
       tasks = [CountTask CountAwaitInit], fetched = [], progress = [] \<rparr>"
  by (simp add: count_db_def fresh_def init_def)

lemma count_rejected_run:
  assumes "open_error env = Some e"
  shows "run env 2 (snd (count_db (fresh d))) =
           \<lparr> db = False, initPromise = Some (Rejected e), loadPromise = None, idb = d,
             tasks = [CountTask (CountReturned (Inl e))], fetched = [], progress = [] \<rparr>"
proof -
  have t1: "tick env \<lparr> db = False, initPromise = Some Pending, loadPromise = None, idb = d,
       tasks = [CountTask CountAwaitInit], fetched = [], progress = [] \<rparr> =
     \<lparr> db = False, initPromise = Some (Rejected e), loadPromise = None, idb = d,
       tasks = [CountTask CountAwaitInit], fetched = [], progress = [] \<rparr>"
    by (simp add: tick_def open_done_def assms)
  have t2: "tick env \<lparr> db = False, initPromise = Some (Rejected e), loadPromise = None, idb = d,
       tasks = [CountTask CountAwaitInit], fetched = [], progress = [] \<rparr> =
     \<lparr> db = False, initPromise = Some (Rejected e), loadPromise = None, idb = d,
       tasks = [CountTask (CountReturned (Inl e))], fetched = [], progress = [] \<rparr>"
    by (simp add: tick_def resume_def init_result_def)
  show ?thesis
    by (simp add: run_def eval_nat_numeral count_db_fresh t1 t2)
qed

lemma count_resolved_run:
  assumes "open_error env = None" and "count_error env = None"
    and "version d = DB_VERSION" and "objectStore d = Some s"
  shows "run env 3 (snd (count_db (fresh d))) =
           \<lparr> db = True, initPromise = Some Fulfilled, loadPromise = None, idb = d,
             tasks = [CountTask (CountReturned (Inr (length s)))], fetched = [], progress = [] \<rparr>"
proof -
  let ?W = "\<lambda>pc. \<lparr> db = True, initPromise = Some Fulfilled, loadPromise = None, idb = d,
       tasks = [CountTask pc], fetched = [], progress = [] \<rparr>"
  have t1: "tick env \<lparr> db = False, initPromise = Some Pending, loadPromise = None, idb = d,
       tasks = [CountTask CountAwaitInit], fetched = [], progress = [] \<rparr> = ?W CountAwaitInit"
    by (simp add: tick_def open_done_def assms)
  have t2: "tick env (?W CountAwaitInit) = ?W CountAwaitRequest"
    by (simp add: tick_def resume_def init_result_def assms)
  have t3: "tick env (?W CountAwaitRequest) = ?W (CountReturned (Inr (length s)))"
    by (simp add: tick_def resume_def assms)
  show ?thesis
    by (simp add: run_def eval_nat_numeral count_db_fresh t1 t2 t3)
qed

lemma tick_count_returned:
  "tick env \<lparr> db = b, initPromise = Some q, loadPromise = lp, idb = d,
             tasks = [CountTask (CountReturned r)], fetched = fs, progress = ps \<rparr> =
   (if q = Pending then
      open_done env \<lparr> db = b, initPromise = Some q, loadPromise = lp, idb = d,
             tasks = [CountTask (CountReturned r)], fetched = fs, progress = ps \<rparr>
    else \<lparr> db = b, initPromise = Some q, loadPromise = lp, idb = d,
             tasks = [CountTask (CountReturned r)], fetched = fs, progress = ps \<rparr>)"
  by (simp add: tick_def)

text \<open>
  In every state reached from a fresh one, a fulfilled \<open>initPromise\<close> comes with \<open>db\<close> set
  (calls and ticks keep this), so the branch \<open>if (!this.db) return 0\<close> of \<open>count\<close> is never
  taken after \<open>await this.init()\<close>.
\<close>

lemma load_step_db:
  "db (snd (load_step env k url cb w pc)) = db w \<and>
   initPromise (snd (load_step env k url cb w pc)) = initPromise w"
  by (induction env k url cb w pc rule: load_step.induct)
     (auto simp: report_def init_def split: promise.splits sum.splits option.splits)

lemma resume_db: "db (resume env k w) = db w \<and> initPromise (resume env k w) = initPromise w"
proof -
  have "db (case load_step env k url cb w pc of
              (pc', w') \<Rightarrow> w'\<lparr>tasks := (tasks w')[k := LoadTask url cb pc']\<rparr>) = db w \<and>
        initPromise (case load_step env k url cb w pc of
              (pc', w') \<Rightarrow> w'\<lparr>tasks := (tasks w')[k := LoadTask url cb pc']\<rparr>) = initPromise w"
    for url cb pc
    using load_step_db [of env k url cb w pc]
    by (cases "load_step env k url cb w pc") simp
  then show ?thesis
    by (simp add: resume_def split: task.splits)
qed

lemma opened_tick:
  "(initPromise w = Some Fulfilled \<longrightarrow> db w) \<Longrightarrow>
   (initPromise (tick env w) = Some Fulfilled \<longrightarrow> db (tick env w))"
  by (auto simp: tick_def open_done_def resume_db split: option.splits list.splits)

lemma opened_run:
  "(initPromise w = Some Fulfilled \<longrightarrow> db w) \<Longrightarrow>
   (initPromise (run env n w) = Some Fulfilled \<longrightarrow> db (run env n w))"
proof (induction n arbitrary: w)
  case 0
  then show ?case by (simp add: run_0)
next
  case (Suc n)
  show ?case
    unfolding run_Suc by (rule Suc.IH) (rule opened_tick [OF Suc.prems])
qed

lemma opened_calls:
  "(initPromise w = Some Fulfilled \<longrightarrow> db w) \<Longrightarrow>
   (initPromise (snd (loadFromFile url cb w)) = Some Fulfilled \<longrightarrow> db (snd (loadFromFile url cb w))) \<and>
   (initPromise (snd (count_db w)) = Some Fulfilled \<longrightarrow> db (snd (count_db w)))"
  by (auto simp: loadFromFile_def count_db_def init_def Let_def split: option.splits)

lemma count_guard_unreachable:
  assumes "initPromise w = Some Fulfilled \<longrightarrow> db w"
  shows "count_step env w CountAwaitInit \<noteq> CountReturned (Inr 0)"
  using assms
  by (auto simp: init_result_def split: promise.splits option.splits)

text \<open>
  C3: when the open request fails with \<open>e\<close>, \<open>count()\<close> on a fresh object is rejected with
  \<open>e\<close>: the rejection of \<open>init\<close> passes through \<open>await this.init()\<close> and the guard
  \<open>if (!this.db) return 0\<close> is never reached. When the open and the count request succeed,
  \<open>count()\<close> returns the number of stored records.
\<close>

theorem count_open_failure_rejects:
  "(open_error env = Some e \<and> 2 \<le> n \<longrightarrow>
      tasks (run env n (snd (count_db (fresh d)))) = [CountTask (CountReturned (Inl e))]) \<and>
   (open_error env = None \<and> count_error env = None \<and> version d = DB_VERSION \<and>
    objectStore d = Some s \<and> 3 \<le> n \<longrightarrow>
      tasks (run env n (snd (count_db (fresh d)))) = [CountTask (CountReturned (Inr (length s)))])"
proof (intro conjI impI)
  assume a: "open_error env = Some e \<and> 2 \<le> n"
  have "run env n (snd (count_db (fresh d))) =
           \<lparr> db = False, initPromise = Some (Rejected e), loadPromise = None, idb = d,
             tasks = [CountTask (CountReturned (Inl e))], fetched = [], progress = [] \<rparr>"
    using a by (intro run_from [OF count_rejected_run]) (simp_all add: tick_count_returned)
  then show "tasks (run env n (snd (count_db (fresh d)))) = [CountTask (CountReturned (Inl e))]"
    by simp
next
  assume a: "open_error env = None \<and> count_error env = None \<and> version d = DB_VERSION \<and>
    objectStore d = Some s \<and> 3 \<le> n"
  have "run env n (snd (count_db (fresh d))) =
           \<lparr> db = True, initPromise = Some Fulfilled, loadPromise = None, idb = d,
             tasks = [CountTask (CountReturned (Inr (length s)))], fetched = [], progress = [] \<rparr>"
    using a by (intro run_from [OF count_resolved_run]) (simp_all add: tick_count_returned)
  then show "tasks (run env n (snd (count_db (fresh d)))) =
               [CountTask (CountReturned (Inr (length s)))]"
    by simp
qed

theorem count_open_failure_rejects_witness:
  "tasks (run (sample_environment (Some (Error ''open failed'')) []) 2
            (snd (count_db (fresh \<lparr> version = 0, objectStore = None \<rparr>)))) =
     [CountTask (CountReturned (Inl (Error ''open failed'')))] \<and>
   tasks (run (sample_environment None []) 3
            (snd (count_db (fresh \<lparr> version = 2,
               objectStore = Some [(1, sample_record 1 ''a''), (2, sample_record 2 ''b'')] \<rparr>)))) =
     [CountTask (CountReturned (Inr 2))]"
  using count_open_failure_rejects
      [of "sample_environment (Some (Error ''open failed'')) []" "Error ''open failed''" 2
          "\<lparr> version = 0, objectStore = None \<rparr>" "[]"]
    count_open_failure_rejects
      [of "sample_environment None []" "Error ''x''" 3
          "\<lparr> version = 2,
             objectStore = Some [(1, sample_record 1 ''a''), (2, sample_record 2 ''b'')] \<rparr>"
          "[(1, sample_record 1 ''a''), (2, sample_record 2 ''b'')]"]
  by (simp add: sample_environment_def DB_VERSION_def)

end
